theory Spec2Isabelle
  imports Complex_Main "HOL-Library.Sublist"
begin

section \<open>Data model (types.ts)\<close>

text \<open>
  The zod schemas of \<^verbatim>\<open>types.ts\<close> become records and datatypes. An optional key of
  an object is an \<open>option\<close> field. Two records may not share a field name, so the
  \<^verbatim>\<open>id\<close>, \<^verbatim>\<open>kind\<close> and \<^verbatim>\<open>data\<close> keys carry the name of their object as a prefix;
  \<^verbatim>\<open>x\<close>, \<^verbatim>\<open>y\<close> are \<open>pos_x\<close>, \<open>pos_y\<close>, and the key \<^verbatim>\<open>fields\<close> is \<open>data_fields\<close>.
  A finite JavaScript number is read as the real number it denotes, a JavaScript string
  as a \<open>string\<close>.
\<close>

datatype NodeKind = Service | Class | Module | Api | Queue | Db

datatype EdgeKind = Calls | DependsOn | Publishes | Consumes | Queries

record Position =
  pos_x :: real
  pos_y :: real

record GraphNodeData =
  summary :: "string option"
  methods :: "string list option"
  data_fields :: "string list option"
  filePath :: "string option"

record GraphNode =
  node_id :: string
  node_kind :: NodeKind
  label :: string
  position :: Position
  node_data :: GraphNodeData

record GraphEdgeData =
  description :: "string option"

record GraphEdge =
  edge_id :: string
  source :: string
  target :: string
  edge_kind :: EdgeKind
  edge_data :: "GraphEdgeData option"

record GraphMeta =
  projectId :: string
  updatedAt :: string

record GraphState =
  nodes :: "GraphNode list"
  edges :: "GraphEdge list"
  meta :: GraphMeta

text \<open>
  \<^verbatim>\<open>NodeUpdateSchema\<close>: the \<^verbatim>\<open>data\<close> key is \<^verbatim>\<open>GraphNodeDataSchema.partial().optional()\<close>;
  every key of \<^verbatim>\<open>GraphNodeDataSchema\<close> is optional already, so the partial object has
  the shape of \<open>GraphNodeData\<close>.
\<close>

record NodeUpdate =
  upd_id :: string
  upd_label :: "string option"
  upd_kind :: "NodeKind option"
  upd_data :: "GraphNodeData option"

record GraphDelta =
  addNodes :: "GraphNode list option"
  updateNodes :: "NodeUpdate list option"
  removeNodeIds :: "string list option"
  addEdges :: "GraphEdge list option"
  removeEdgeIds :: "string list option"

section \<open>Merge engine (graph-utils.ts, mergeGraphDelta)\<close>

text \<open>
  Each numbered step of \<^verbatim>\<open>mergeGraphDelta\<close> is one definition, with the guard
  \<^verbatim>\<open>delta.f && delta.f.length > 0\<close> of the source kept. A JavaScript \<^verbatim>\<open>Set\<close> of
  strings is a \<open>string set\<close>, the \<^verbatim>\<open>Map\<close> of updates a map \<open>string \<rightharpoonup> NodeUpdate\<close>.
\<close>

text \<open>Step 1: remove nodes, and the edges that reference a removed node.\<close>

definition removeNodesStep ::
  "string list option \<Rightarrow> GraphNode list \<times> GraphEdge list \<Rightarrow> GraphNode list \<times> GraphEdge list" where
  "removeNodesStep r st =
     (case r of
        None \<Rightarrow> st
      | Some ids \<Rightarrow>
          if length ids > 0 then
            (let removeSet = set ids in
               (filter (\<lambda>n. node_id n \<notin> removeSet) (fst st),
                filter (\<lambda>e. source e \<notin> removeSet \<and> target e \<notin> removeSet) (snd st)))
          else st)"

text \<open>Step 2: remove edges by id.\<close>

definition removeEdgesStep :: "string list option \<Rightarrow> GraphEdge list \<Rightarrow> GraphEdge list" where
  "removeEdgesStep r es =
     (case r of
        None \<Rightarrow> es
      | Some ids \<Rightarrow>
          if length ids > 0 then
            (let removeSet = set ids in filter (\<lambda>e. edge_id e \<notin> removeSet) es)
          else es)"

text \<open>
  Step 3: the \<^verbatim>\<open>for\<close> loop over \<^verbatim>\<open>delta.addNodes\<close>. The loop state is the node array
  and the set \<^verbatim>\<open>existingIds\<close>, which the loop extends beside the array.
\<close>

fun addNodesLoop ::
  "GraphNode list \<Rightarrow> GraphNode list \<times> string set \<Rightarrow> GraphNode list \<times> string set" where
  "addNodesLoop [] st = st"
| "addNodesLoop (newNode # rest) (ns, existingIds) =
     (if node_id newNode \<notin> existingIds
      then addNodesLoop rest (ns @ [newNode], insert (node_id newNode) existingIds)
      else addNodesLoop rest (ns, existingIds))"

definition addNodesStep :: "GraphNode list option \<Rightarrow> GraphNode list \<Rightarrow> GraphNode list" where
  "addNodesStep a ns =
     (case a of
        None \<Rightarrow> ns
      | Some new \<Rightarrow>
          if length new > 0 then fst (addNodesLoop new (ns, set (map node_id ns)))
          else ns)"

text \<open>
  Step 4: \<^verbatim>\<open>new Map(delta.updateNodes.map(u => [u.id, u]))\<close> inserts the entries from
  left to right, so a later entry with the same id replaces an earlier one.
  \<^verbatim>\<open>{...node.data, ...update.data}\<close> copies every key of \<^verbatim>\<open>node.data\<close> and then every
  key that \<^verbatim>\<open>update.data\<close> has; a key is present exactly when its field is \<open>Some\<close>.
\<close>

definition mkUpdateMap :: "NodeUpdate list \<Rightarrow> (string \<rightharpoonup> NodeUpdate)" where
  "mkUpdateMap us = foldl (\<lambda>m u. m(upd_id u \<mapsto> u)) Map.empty us"

definition spreadKey :: "'a option \<Rightarrow> 'a option \<Rightarrow> 'a option" where
  "spreadKey old new = (case new of Some v \<Rightarrow> Some v | None \<Rightarrow> old)"

definition spreadData :: "GraphNodeData \<Rightarrow> GraphNodeData option \<Rightarrow> GraphNodeData" where
  "spreadData d ud =
     (case ud of
        None \<Rightarrow> d
      | Some u \<Rightarrow>
          \<lparr> summary = spreadKey (summary d) (summary u),
            methods = spreadKey (methods d) (methods u),
            data_fields = spreadKey (data_fields d) (data_fields u),
            filePath = spreadKey (filePath d) (filePath u) \<rparr>)"

text \<open>\<^verbatim>\<open>a ?? b\<close> on an optional key.\<close>

definition nullish :: "'a option \<Rightarrow> 'a \<Rightarrow> 'a" where
  "nullish a b = (case a of Some v \<Rightarrow> v | None \<Rightarrow> b)"

definition mergeUpdate :: "GraphNode \<Rightarrow> NodeUpdate \<Rightarrow> GraphNode" where
  "mergeUpdate node update =
     node\<lparr> label := nullish (upd_label update) (label node),
           node_kind := nullish (upd_kind update) (node_kind node),
           node_data := spreadData (node_data node) (upd_data update) \<rparr>"

definition updateNode :: "(string \<rightharpoonup> NodeUpdate) \<Rightarrow> GraphNode \<Rightarrow> GraphNode" where
  "updateNode updateMap node =
     (case updateMap (node_id node) of
        None \<Rightarrow> node
      | Some update \<Rightarrow> mergeUpdate node update)"

definition updateNodesStep :: "NodeUpdate list option \<Rightarrow> GraphNode list \<Rightarrow> GraphNode list" where
  "updateNodesStep u ns =
     (case u of
        None \<Rightarrow> ns
      | Some us \<Rightarrow>
          if length us > 0 then map (updateNode (mkUpdateMap us)) ns
          else ns)"

text \<open>
  Step 5: the \<^verbatim>\<open>for\<close> loop over \<^verbatim>\<open>delta.addEdges\<close>, with the fixed set \<^verbatim>\<open>nodeIds\<close>
  and the loop state made of the edge array and \<^verbatim>\<open>existingEdgeIds\<close>. The
  \<^verbatim>\<open>console.warn\<close> of the else branch writes to the console only and is left out.
\<close>

fun addEdgesLoop ::
  "string set \<Rightarrow> GraphEdge list \<Rightarrow> GraphEdge list \<times> string set \<Rightarrow> GraphEdge list \<times> string set" where
  "addEdgesLoop nodeIds [] st = st"
| "addEdgesLoop nodeIds (newEdge # rest) (es, existingEdgeIds) =
     (if source newEdge \<in> nodeIds \<and> target newEdge \<in> nodeIds then
        (if edge_id newEdge \<notin> existingEdgeIds
         then addEdgesLoop nodeIds rest (es @ [newEdge], insert (edge_id newEdge) existingEdgeIds)
         else addEdgesLoop nodeIds rest (es, existingEdgeIds))
      else addEdgesLoop nodeIds rest (es, existingEdgeIds))"

definition addEdgesStep ::
  "GraphEdge list option \<Rightarrow> GraphNode list \<Rightarrow> GraphEdge list \<Rightarrow> GraphEdge list" where
  "addEdgesStep a ns es =
     (case a of
        None \<Rightarrow> es
      | Some new \<Rightarrow>
          if length new > 0
          then fst (addEdgesLoop (set (map node_id ns)) new (es, set (map edge_id es)))
          else es)"

text \<open>
  The intermediate results of the five steps, and the function itself. The clock
  reading \<^verbatim>\<open>new Date().toISOString()\<close> is the parameter \<open>now\<close>.
\<close>

definition nodesAfterRemoval :: "GraphState \<Rightarrow> GraphDelta \<Rightarrow> GraphNode list" where
  "nodesAfterRemoval state delta = fst (removeNodesStep (removeNodeIds delta) (nodes state, edges state))"

definition edgesAfterRemoval :: "GraphState \<Rightarrow> GraphDelta \<Rightarrow> GraphEdge list" where
  "edgesAfterRemoval state delta =
     removeEdgesStep (removeEdgeIds delta)
       (snd (removeNodesStep (removeNodeIds delta) (nodes state, edges state)))"

definition nodesAfterAdd :: "GraphState \<Rightarrow> GraphDelta \<Rightarrow> GraphNode list" where
  "nodesAfterAdd state delta = addNodesStep (addNodes delta) (nodesAfterRemoval state delta)"

definition nodesAfterUpdate :: "GraphState \<Rightarrow> GraphDelta \<Rightarrow> GraphNode list" where
  "nodesAfterUpdate state delta = updateNodesStep (updateNodes delta) (nodesAfterAdd state delta)"

definition mergeGraphDelta :: "string \<Rightarrow> GraphState \<Rightarrow> GraphDelta \<Rightarrow> GraphState" where
  "mergeGraphDelta now state delta =
     \<lparr> nodes = nodesAfterUpdate state delta,
       edges = addEdgesStep (addEdges delta) (nodesAfterUpdate state delta)
                 (edgesAfterRemoval state delta),
       meta = (meta state)\<lparr> updatedAt := now \<rparr> \<rparr>"

text \<open>The delta \<^verbatim>\<open>{}\<close>: every operation key absent.\<close>

definition emptyDelta :: GraphDelta where
  "emptyDelta =
     \<lparr> addNodes = None, updateNodes = None, removeNodeIds = None,
       addEdges = None, removeEdgeIds = None \<rparr>"

section \<open>Integrity validator (graph-utils.ts, validateGraphState)\<close>

text \<open>
  The three \<^verbatim>\<open>for\<close> loops push messages onto the one array \<^verbatim>\<open>errors\<close>; the first two
  carry a set of the ids seen so far. A template literal is string concatenation.
\<close>

record ValidationResult =
  valid :: bool
  errors :: "string list"

fun nodeDupLoop :: "GraphNode list \<Rightarrow> string set \<times> string list \<Rightarrow> string set \<times> string list" where
  "nodeDupLoop [] st = st"
| "nodeDupLoop (node # rest) (seenNodeIds, errs) =
     nodeDupLoop rest
       (insert (node_id node) seenNodeIds,
        if node_id node \<in> seenNodeIds
        then errs @ [''Duplicate node ID: '' @ node_id node] else errs)"

fun edgeDupLoop :: "GraphEdge list \<Rightarrow> string set \<times> string list \<Rightarrow> string set \<times> string list" where
  "edgeDupLoop [] st = st"
| "edgeDupLoop (edge # rest) (seenEdgeIds, errs) =
     edgeDupLoop rest
       (insert (edge_id edge) seenEdgeIds,
        if edge_id edge \<in> seenEdgeIds
        then errs @ [''Duplicate edge ID: '' @ edge_id edge] else errs)"

fun edgeRefLoop :: "string set \<Rightarrow> GraphEdge list \<Rightarrow> string list \<Rightarrow> string list" where
  "edgeRefLoop nodeIds [] errs = errs"
| "edgeRefLoop nodeIds (edge # rest) errs =
     (let errs1 =
            (if source edge \<notin> nodeIds
             then errs @ [''Edge '' @ edge_id edge @ '' references non-existent source node: ''
                           @ source edge]
             else errs);
          errs2 =
            (if target edge \<notin> nodeIds
             then errs1 @ [''Edge '' @ edge_id edge @ '' references non-existent target node: ''
                            @ target edge]
             else errs1)
      in edgeRefLoop nodeIds rest errs2)"

definition validateGraphState :: "GraphState \<Rightarrow> ValidationResult" where
  "validateGraphState state =
     (let nodeIds = set (map node_id (nodes state));
          errs1 = snd (nodeDupLoop (nodes state) ({}, []));
          errs2 = snd (edgeDupLoop (edges state) ({}, errs1));
          errs3 = edgeRefLoop nodeIds (edges state) errs2
      in \<lparr> valid = (length errs3 = 0), errors = errs3 \<rparr>)"

section \<open>Layout assignment (graph-utils.ts, autoLayoutNodes)\<close>

text \<open>
  \<^verbatim>\<open>nodes.map((node, index) => ...)\<close> is a map over the array paired with its indices.
  The optional parameters \<^verbatim>\<open>startX\<close> and \<^verbatim>\<open>startY\<close> (default 100) are passed by every
  caller and are plain arguments here.

  A JavaScript number is an IEEE 754 double. The model reads a finite double as the real
  number it denotes (not-a-number, the infinities and the sign of zero are outside the
  model), so \<^verbatim>\<open>x !== 0\<close> is \<open>x \<noteq> 0\<close>. The sum and the product of two doubles are
  rounded, so they are not the sum and the product of the reals: the \<^verbatim>\<open>+\<close> and the
  \<^verbatim>\<open>*\<close> of lines 147 and 148 are the parameters \<open>fadd\<close> and \<open>fmul\<close>. An array
  index is below \<open>2 ^ 32\<close>, where \<^verbatim>\<open>index % COLS\<close> and \<^verbatim>\<open>Math.floor(index / COLS)\<close>
  are exact, so \<open>col\<close> and \<open>row\<close> are natural numbers.
\<close>

definition SPACING_X :: real where "SPACING_X = 250"

definition SPACING_Y :: real where "SPACING_Y = 150"

definition COLS :: nat where "COLS = 4"

definition layoutNode ::
  "(real \<Rightarrow> real \<Rightarrow> real) \<Rightarrow> (real \<Rightarrow> real \<Rightarrow> real) \<Rightarrow> real \<Rightarrow> real \<Rightarrow> nat \<Rightarrow> GraphNode
     \<Rightarrow> GraphNode" where
  "layoutNode fadd fmul startX startY index node =
     (if pos_x (position node) \<noteq> 0 \<or> pos_y (position node) \<noteq> 0 then node
      else
        (let col = index mod COLS;
             row = index div COLS
         in node\<lparr> position :=
                    \<lparr> pos_x = fadd startX (fmul (real col) SPACING_X),
                      pos_y = fadd startY (fmul (real row) SPACING_Y) \<rparr> \<rparr>))"

definition autoLayoutNodes ::
  "(real \<Rightarrow> real \<Rightarrow> real) \<Rightarrow> (real \<Rightarrow> real \<Rightarrow> real) \<Rightarrow> GraphNode list \<Rightarrow> real \<Rightarrow> real
     \<Rightarrow> GraphNode list" where
  "autoLayoutNodes fadd fmul ns startX startY =
     map (\<lambda>(index, node). layoutNode fadd fmul startX startY index node)
       (zip [0..<length ns] ns)"

text \<open>
  The arithmetic of doubles, for operands and results that are finite and in the normal
  range: the exact result rounded to 53 significant bits, to the nearest value and to
  the even one of two nearest values. \<open>\<lfloor>log 2 \<bar>x\<bar>\<rfloor>\<close> is the binary exponent of \<open>x\<close>,
  and \<open>q\<close> the distance between neighbouring doubles at that exponent.
\<close>

definition roundHalfEven :: "real \<Rightarrow> int" where
  "roundHalfEven x =
     (let f = \<lfloor>x\<rfloor>;
          r = x - of_int f
      in if r < 1 / 2 then f
         else if 1 / 2 < r then f + 1
         else if even f then f else f + 1)"

definition round53 :: "real \<Rightarrow> real" where
  "round53 x =
     (if x = 0 then 0
      else
        (let q = 2 powr (of_int \<lfloor>log 2 \<bar>x\<bar>\<rfloor> - 52)
         in q * of_int (roundHalfEven (x / q))))"

definition doubleAdd :: "real \<Rightarrow> real \<Rightarrow> real" where
  "doubleAdd x y = round53 (x + y)"

definition doubleMul :: "real \<Rightarrow> real \<Rightarrow> real" where
  "doubleMul x y = round53 (x * y)"

section \<open>Change summarizer (prompts.ts, generateChangeSummary)\<close>

text \<open>
  \<^verbatim>\<open>Array.prototype.join\<close>, the decimal text of an array length, and the text of the two
  enums as a template literal prints them.
\<close>

fun join :: "string \<Rightarrow> string list \<Rightarrow> string" where
  "join sep [] = []"
| "join sep [p] = p"
| "join sep (p # q # ps) = p @ sep @ join sep (q # ps)"

fun showNat :: "nat \<Rightarrow> string" where
  "showNat n =
     (if n < 10 then [''0123456789'' ! n]
      else showNat (n div 10) @ [''0123456789'' ! (n mod 10)])"

declare showNat.simps [simp del]

fun showNodeKind :: "NodeKind \<Rightarrow> string" where
  "showNodeKind Service = ''service''"
| "showNodeKind Class = ''class''"
| "showNodeKind Module = ''module''"
| "showNodeKind Api = ''api''"
| "showNodeKind Queue = ''queue''"
| "showNodeKind Db = ''db''"

fun showEdgeKind :: "EdgeKind \<Rightarrow> string" where
  "showEdgeKind Calls = ''calls''"
| "showEdgeKind DependsOn = ''depends_on''"
| "showEdgeKind Publishes = ''publishes''"
| "showEdgeKind Consumes = ''consumes''"
| "showEdgeKind Queries = ''queries''"

text \<open>
  The text between source and target of an edge in \<^verbatim>\<open>addEdges\<close> sentences is a literal
  of the source with code units above 255 (a space, U+00E2, U+2020, U+2019, a space).
  They have no \<open>char\<close>, so the literal is the parameter \<open>arrow\<close>.
\<close>

text \<open>The five sentences, one per operation category.\<close>

definition addedNodesSentence :: "GraphNode list \<Rightarrow> string" where
  "addedNodesSentence ns =
     ''Added '' @ showNat (length ns) @ '' node(s): ''
       @ join '', '' (map (\<lambda>n. ''\"'' @ label n @ ''\" ('' @ showNodeKind (node_kind n) @ '')'') ns)"

definition updatedNodesSentence :: "NodeUpdate list \<Rightarrow> string" where
  "updatedNodesSentence us =
     ''Updated '' @ showNat (length us) @ '' node(s): '' @ join '', '' (map upd_id us)"

definition removedNodesSentence :: "string list \<Rightarrow> string" where
  "removedNodesSentence ids =
     ''Removed '' @ showNat (length ids) @ '' node(s): '' @ join '', '' ids"

definition addedEdgesSentence :: "string \<Rightarrow> GraphEdge list \<Rightarrow> string" where
  "addedEdgesSentence arrow es =
     ''Added '' @ showNat (length es) @ '' edge(s): ''
       @ join '', ''
           (map (\<lambda>e. source e @ arrow @ target e @ '' ('' @ showEdgeKind (edge_kind e) @ '')'') es)"

definition removedEdgesSentence :: "string list \<Rightarrow> string" where
  "removedEdgesSentence ids =
     ''Removed '' @ showNat (length ids) @ '' edge(s): '' @ join '', '' ids"

text \<open>\<^verbatim>\<open>if (delta.f && delta.f.length > 0) parts.push(sentence)\<close>.\<close>

definition pushIf :: "'a list option \<Rightarrow> ('a list \<Rightarrow> string) \<Rightarrow> string list \<Rightarrow> string list" where
  "pushIf f sentence parts =
     (case f of
        None \<Rightarrow> parts
      | Some xs \<Rightarrow> if length xs > 0 then parts @ [sentence xs] else parts)"

definition summaryParts :: "string \<Rightarrow> GraphDelta \<Rightarrow> string list" where
  "summaryParts arrow delta =
     (let parts1 = pushIf (addNodes delta) addedNodesSentence [];
          parts2 = pushIf (updateNodes delta) updatedNodesSentence parts1;
          parts3 = pushIf (removeNodeIds delta) removedNodesSentence parts2;
          parts4 = pushIf (addEdges delta) (addedEdgesSentence arrow) parts3;
          parts5 = pushIf (removeEdgeIds delta) removedEdgesSentence parts4
      in parts5)"

definition generateChangeSummary :: "string \<Rightarrow> GraphDelta \<Rightarrow> string" where
  "generateChangeSummary arrow delta =
     (let parts = summaryParts arrow delta
      in if length parts = 0 then ''No changes were made to the graph.''
         else join ''. '' parts @ ''.'')"

section \<open>Delta parser (chat route and demo-mode.ts, parseAndValidateDelta)\<close>

text \<open>
  The function stands twice in the repository, in the chat route and in
  \<^verbatim>\<open>demo-mode.ts\<close>, with the same body.
  A \<open>char\<close> stands for a UTF-16 code unit below 256. \<^verbatim>\<open>String.prototype.trim\<close> removes
  white space and line terminators from both ends; below 256 these are the code units
  9 to 13, 32 and 160.
\<close>

definition isWhiteSpace :: "char \<Rightarrow> bool" where
  "isWhiteSpace c =
     (c \<in> {CHR 0x09, CHR 0x0A, CHR 0x0B, CHR 0x0C, CHR 0x0D, CHR 0x20, CHR 0xA0})"

definition trim :: "string \<Rightarrow> string" where
  "trim s = rev (dropWhile isWhiteSpace (rev (dropWhile isWhiteSpace s)))"

definition startsWith :: "string \<Rightarrow> string \<Rightarrow> bool" where
  "startsWith s p = (take (length p) s = p)"

definition endsWith :: "string \<Rightarrow> string \<Rightarrow> bool" where
  "endsWith s p = (length p \<le> length s \<and> drop (length s - length p) s = p)"

text \<open>The statements up to the second \<^verbatim>\<open>trim\<close>: \<^verbatim>\<open>slice(7)\<close>, \<^verbatim>\<open>slice(3)\<close>, \<^verbatim>\<open>slice(0, -3)\<close>.\<close>

definition stripLeadingFence :: "string \<Rightarrow> string" where
  "stripLeadingFence cleaned =
     (if startsWith cleaned ''```json'' then drop 7 cleaned
      else if startsWith cleaned ''```'' then drop 3 cleaned
      else cleaned)"

definition stripTrailingFence :: "string \<Rightarrow> string" where
  "stripTrailingFence cleaned =
     (if endsWith cleaned ''```'' then take (length cleaned - 3) cleaned else cleaned)"

definition cleanResponse :: "string \<Rightarrow> string" where
  "cleanResponse response = trim (stripTrailingFence (stripLeadingFence (trim response)))"

text \<open>
  \<^verbatim>\<open>cleaned.match(/\{[\s\S]*\}/)\<close>: the leftmost position where the pattern matches, and
  there the longest match. \<open>greedyClose\<close> is \<^verbatim>\<open>[\s\S]*\}\<close> at a given position: the
  longest run of characters that ends in a closing brace.
\<close>

fun greedyClose :: "string \<Rightarrow> string option" where
  "greedyClose [] = None"
| "greedyClose (c # cs) =
     (case greedyClose cs of
        Some m \<Rightarrow> Some (c # m)
      | None \<Rightarrow> if c = CHR ''}'' then Some [c] else None)"

fun jsonMatch :: "string \<Rightarrow> string option" where
  "jsonMatch [] = None"
| "jsonMatch (c # cs) =
     (if c = CHR ''{'' then
        (case greedyClose cs of
           Some m \<Rightarrow> Some (c # m)
         | None \<Rightarrow> jsonMatch cs)
      else jsonMatch cs)"

text \<open>
  The three ways the function throws. \<^verbatim>\<open>JSON.parse\<close> and \<^verbatim>\<open>GraphDeltaSchema.safeParse\<close>
  belong to the JavaScript library and to zod; they are the parameters \<open>jsonParse\<close>
  (\<open>None\<close> when \<^verbatim>\<open>JSON.parse\<close> throws) and \<open>safeParse\<close> (\<open>Inl\<close> the message of the
  zod error). The \<^verbatim>\<open>JSON.parse\<close> inside the \<^verbatim>\<open>catch\<close> block is not guarded, so its
  exception leaves the function.
\<close>

datatype ParseError =
    JsonSyntaxError
  | NoJsonFound
  | InvalidGraphDelta string

definition parseJson :: "(string \<Rightarrow> 'v option) \<Rightarrow> string \<Rightarrow> ParseError + 'v" where
  "parseJson jsonParse cleaned =
     (case jsonParse cleaned of
        Some v \<Rightarrow> Inr v
      | None \<Rightarrow>
          (case jsonMatch cleaned of
             Some m \<Rightarrow>
               (case jsonParse m of
                  Some v \<Rightarrow> Inr v
                | None \<Rightarrow> Inl JsonSyntaxError)
           | None \<Rightarrow> Inl NoJsonFound))"

definition parseAndValidateDelta ::
  "(string \<Rightarrow> 'v option) \<Rightarrow> ('v \<Rightarrow> string + GraphDelta) \<Rightarrow> string \<Rightarrow> ParseError + GraphDelta" where
  "parseAndValidateDelta jsonParse safeParse response =
     (case parseJson jsonParse (cleanResponse response) of
        Inl e \<Rightarrow> Inl e
      | Inr parsed \<Rightarrow>
          (case safeParse parsed of
             Inl msg \<Rightarrow> Inl (InvalidGraphDelta msg)
           | Inr d \<Rightarrow> Inr d))"

section \<open>Auxiliary functions for the proofs\<close>

text \<open>
  An absent operation key and an empty array behave alike in every step; \<open>optList\<close> is
  the array of a key, empty when the key is absent.
\<close>

definition optList :: "'a list option \<Rightarrow> 'a list" where
  "optList f = (case f of None \<Rightarrow> [] | Some xs \<Rightarrow> xs)"

text \<open>
  What a first-writer-wins loop appends: the entries whose key is neither in \<open>seen\<close> nor
  the key of an earlier entry.
\<close>

fun newByKey :: "('a \<Rightarrow> string) \<Rightarrow> string set \<Rightarrow> 'a list \<Rightarrow> 'a list" where
  "newByKey key seen [] = []"
| "newByKey key seen (a # as) =
     (if key a \<in> seen then newByKey key seen as
      else a # newByKey key (insert (key a) seen) as)"

text \<open>
  What a duplicate-id loop reports: the keys, in order, that are in \<open>seen\<close> or repeat an
  earlier key.
\<close>

fun dupKeys :: "string set \<Rightarrow> string list \<Rightarrow> string list" where
  "dupKeys seen [] = []"
| "dupKeys seen (k # ks) =
     (if k \<in> seen then k # dupKeys seen ks else dupKeys (insert k seen) ks)"

text \<open>The messages that the reference loop pushes for one edge.\<close>

definition refErrors :: "string set \<Rightarrow> GraphEdge \<Rightarrow> string list" where
  "refErrors nodeIds edge =
     (if source edge \<notin> nodeIds
      then [''Edge '' @ edge_id edge @ '' references non-existent source node: '' @ source edge]
      else [])
     @ (if target edge \<notin> nodeIds
        then [''Edge '' @ edge_id edge @ '' references non-existent target node: '' @ target edge]
        else [])"

definition nodeIdsOf :: "GraphNode list \<Rightarrow> string set" where
  "nodeIdsOf ns = set (map node_id ns)"

definition edgeIdsOf :: "GraphEdge list \<Rightarrow> string set" where
  "edgeIdsOf es = set (map edge_id es)"

text \<open>No edge of the state dangles: every source and target is the id of a node.\<close>

definition noDanglingEdges :: "GraphState \<Rightarrow> bool" where
  "noDanglingEdges state =
     (\<forall>e \<in> set (edges state).
        source e \<in> nodeIdsOf (nodes state) \<and> target e \<in> nodeIdsOf (nodes state))"

section \<open>Example values\<close>

text \<open>Small nodes, edges and states for the scenarios of the specification.\<close>

definition exNode :: "string \<Rightarrow> string \<Rightarrow> GraphNode" where
  "exNode i l =
     \<lparr> node_id = i, node_kind = Service, label = l,
       position = \<lparr> pos_x = 0, pos_y = 0 \<rparr>,
       node_data = \<lparr> summary = None, methods = None, data_fields = None, filePath = None \<rparr> \<rparr>"

definition exEdge :: "string \<Rightarrow> string \<Rightarrow> string \<Rightarrow> GraphEdge" where
  "exEdge i s t =
     \<lparr> edge_id = i, source = s, target = t, edge_kind = Calls, edge_data = None \<rparr>"

definition exState :: "GraphNode list \<Rightarrow> GraphEdge list \<Rightarrow> GraphState" where
  "exState ns es = \<lparr> nodes = ns, edges = es, meta = \<lparr> projectId = ''p1'', updatedAt = ''t0'' \<rparr> \<rparr>"

definition exUpdate :: "string \<Rightarrow> string option \<Rightarrow> GraphNodeData option \<Rightarrow> NodeUpdate" where
  "exUpdate i l d = \<lparr> upd_id = i, upd_label = l, upd_kind = None, upd_data = d \<rparr>"

text \<open>
  The parser inputs of scenarios D and E, and stand-ins for \<^verbatim>\<open>JSON.parse\<close> and
  \<^verbatim>\<open>GraphDeltaSchema.safeParse\<close> that know the one text of these scenarios.
\<close>

definition scenarioD :: string where
  "scenarioD = ''```json'' @ [CHR 0x0A] @ ''{\"addNodes\":[]}'' @ [CHR 0x0A] @ ''```''"

definition scenarioE :: string where
  "scenarioE = ''Sure! Here's the delta: {\"addNodes\":[]} Hope that helps!''"

definition exJsonParse :: "string \<Rightarrow> unit option" where
  "exJsonParse s = (if s = ''{\"addNodes\":[]}'' then Some () else None)"

definition exSafeParse :: "unit \<Rightarrow> string + GraphDelta" where
  "exSafeParse v = Inr (emptyDelta\<lparr> addNodes := Some [] \<rparr>)"

section \<open>Properties of the merge engine\<close>

subsection \<open>Auxiliary lemmas\<close>

lemma removeNodesStep_eq:
  "removeNodesStep r st =
     (filter (\<lambda>n. node_id n \<notin> set (optList r)) (fst st),
      filter (\<lambda>e. source e \<notin> set (optList r) \<and> target e \<notin> set (optList r)) (snd st))"
  by (cases r) (auto simp: removeNodesStep_def optList_def Let_def)

lemma removeEdgesStep_eq:
  "removeEdgesStep r es = filter (\<lambda>e. edge_id e \<notin> set (optList r)) es"
  by (cases r) (auto simp: removeEdgesStep_def optList_def Let_def)

lemma newByKey_subset: "set (newByKey key seen as) \<subseteq> set as"
  by (induction as arbitrary: seen) auto

lemma newByKey_keys: "key ` set (newByKey key seen as) = key ` set as - seen"
  by (induction as arbitrary: seen) auto

lemma newByKey_distinct: "distinct (map key (newByKey key seen as))"
  by (induction as arbitrary: seen) (auto simp: newByKey_keys)

lemma newByKey_union:
  "newByKey key (seen \<union> T) as = filter (\<lambda>a. key a \<notin> T) (newByKey key seen as)"
proof (induction as arbitrary: seen)
  case Nil
  then show ?case by simp
next
  case (Cons a as)
  show ?case
  proof (cases "key a \<in> seen")
    case True
    then show ?thesis using Cons.IH [of seen] by simp
  next
    case False
    note notseen = this
    show ?thesis
    proof (cases "key a \<in> T")
      case True
      then have "insert (key a) (seen \<union> T) = seen \<union> T" by auto
      then show ?thesis using True notseen Cons.IH [of "insert (key a) seen"] by simp
    next
      case False
      then show ?thesis using notseen Cons.IH [of "insert (key a) seen"] by simp
    qed
  qed
qed

lemma newByKey_snoc:
  "newByKey key seen (as @ [a]) =
     newByKey key seen as @ (if key a \<in> seen \<union> key ` set as then [] else [a])"
  by (induction as arbitrary: seen) auto

lemma addNodesLoop_eq:
  "addNodesLoop as (ns, seen) = (ns @ newByKey node_id seen as, seen \<union> node_id ` set as)"
  by (induction as arbitrary: ns seen) auto

lemma addNodesStep_eq:
  "addNodesStep a ns = ns @ newByKey node_id (nodeIdsOf ns) (optList a)"
  by (cases a) (auto simp: addNodesStep_def optList_def addNodesLoop_eq nodeIdsOf_def)

lemma mkUpdateMap_Nil: "mkUpdateMap [] = Map.empty"
  by (simp add: mkUpdateMap_def)

lemma updateNode_empty: "updateNode Map.empty = (\<lambda>n. n)"
  by (rule ext) (simp add: updateNode_def)

lemma updateNodesStep_eq:
  "updateNodesStep u ns = map (updateNode (mkUpdateMap (optList u))) ns"
  by (cases u) (auto simp: updateNodesStep_def optList_def mkUpdateMap_Nil updateNode_empty)

lemma addEdgesLoop_eq:
  "addEdgesLoop N bs (es, seen) =
     (es @ newByKey edge_id seen (filter (\<lambda>e. source e \<in> N \<and> target e \<in> N) bs),
      seen \<union> edge_id ` set (filter (\<lambda>e. source e \<in> N \<and> target e \<in> N) bs))"
  by (induction bs arbitrary: es seen) auto

lemma addEdgesStep_eq:
  "addEdgesStep a ns es =
     es @ newByKey edge_id (edgeIdsOf es)
            (filter (\<lambda>e. source e \<in> nodeIdsOf ns \<and> target e \<in> nodeIdsOf ns) (optList a))"
  by (cases a) (auto simp: addEdgesStep_def optList_def addEdgesLoop_eq nodeIdsOf_def edgeIdsOf_def)

lemma updateNode_id: "node_id (updateNode m n) = node_id n"
  by (simp add: updateNode_def mergeUpdate_def split: option.splits)

lemma nodeIdsOf_update: "nodeIdsOf (map (updateNode m) ns) = nodeIdsOf ns"
  by (simp add: nodeIdsOf_def updateNode_id image_image)

lemma nodeIdsOf_append: "nodeIdsOf (xs @ ys) = nodeIdsOf xs \<union> nodeIdsOf ys"
  by (simp add: nodeIdsOf_def)

lemma edgeIdsOf_append: "edgeIdsOf (xs @ ys) = edgeIdsOf xs \<union> edgeIdsOf ys"
  by (simp add: edgeIdsOf_def)

lemma nodeIdsOf_newByKey: "nodeIdsOf (newByKey node_id seen as) = nodeIdsOf as - seen"
  using newByKey_keys [of node_id seen as] by (simp add: nodeIdsOf_def)

lemma nodesAfterRemoval_eq:
  "nodesAfterRemoval S D =
     filter (\<lambda>n. node_id n \<notin> set (optList (removeNodeIds D))) (nodes S)"
  by (simp add: nodesAfterRemoval_def removeNodesStep_eq)

lemma edgesAfterRemoval_eq:
  "edgesAfterRemoval S D =
     filter (\<lambda>e. edge_id e \<notin> set (optList (removeEdgeIds D)))
       (filter (\<lambda>e. source e \<notin> set (optList (removeNodeIds D))
                    \<and> target e \<notin> set (optList (removeNodeIds D))) (edges S))"
  by (simp add: edgesAfterRemoval_def removeNodesStep_eq removeEdgesStep_eq)

lemma nodesAfterAdd_eq:
  "nodesAfterAdd S D =
     nodesAfterRemoval S D
       @ newByKey node_id (nodeIdsOf (nodesAfterRemoval S D)) (optList (addNodes D))"
  by (simp add: nodesAfterAdd_def addNodesStep_eq)

lemma nodesAfterUpdate_eq:
  "nodesAfterUpdate S D =
     map (updateNode (mkUpdateMap (optList (updateNodes D)))) (nodesAfterAdd S D)"
  by (simp add: nodesAfterUpdate_def updateNodesStep_eq)

lemma nodeIdsOf_nodesAfterAdd:
  "nodeIdsOf (nodesAfterAdd S D) =
     nodeIdsOf (nodesAfterRemoval S D) \<union> nodeIdsOf (optList (addNodes D))"
  by (auto simp: nodesAfterAdd_eq nodeIdsOf_append nodeIdsOf_newByKey)

lemma nodeIdsOf_nodesAfterUpdate:
  "nodeIdsOf (nodesAfterUpdate S D) = nodeIdsOf (nodesAfterAdd S D)"
  by (simp add: nodesAfterUpdate_eq nodeIdsOf_update)

lemma nodeIdsOf_nodesAfterRemoval:
  "nodeIdsOf (nodesAfterRemoval S D) = nodeIdsOf (nodes S) - set (optList (removeNodeIds D))"
  by (auto simp: nodesAfterRemoval_eq nodeIdsOf_def)

lemma merge_nodes: "nodes (mergeGraphDelta now S D) = nodesAfterUpdate S D"
  by (simp add: mergeGraphDelta_def)

lemma merge_edges:
  "edges (mergeGraphDelta now S D) =
     edgesAfterRemoval S D
       @ newByKey edge_id (edgeIdsOf (edgesAfterRemoval S D))
           (filter (\<lambda>e. source e \<in> nodeIdsOf (nodesAfterUpdate S D)
                        \<and> target e \<in> nodeIdsOf (nodesAfterUpdate S D))
              (optList (addEdges D)))"
  by (simp add: mergeGraphDelta_def addEdgesStep_eq)

lemmas merge_unfold =
  mergeGraphDelta_def nodesAfterUpdate_def nodesAfterAdd_def nodesAfterRemoval_def
  edgesAfterRemoval_def removeNodesStep_def removeEdgesStep_def addNodesStep_def
  updateNodesStep_def addEdgesStep_def emptyDelta_def exState_def exNode_def exEdge_def
  noDanglingEdges_def nodeIdsOf_def edgeIdsOf_def Let_def

lemma nodesAfterUpdate_addEdges [simp]:
  "nodesAfterUpdate S (D\<lparr> addEdges := x \<rparr>) = nodesAfterUpdate S D"
  by (simp add: nodesAfterUpdate_def nodesAfterAdd_def nodesAfterRemoval_def)

lemma edgesAfterRemoval_addEdges [simp]:
  "edgesAfterRemoval S (D\<lparr> addEdges := x \<rparr>) = edgesAfterRemoval S D"
  by (simp add: edgesAfterRemoval_def)

lemma edgeIdsOf_newByKey: "edgeIdsOf (newByKey edge_id seen bs) = edgeIdsOf bs - seen"
  using newByKey_keys [of edge_id seen bs] by (simp add: edgeIdsOf_def)

lemma merge_edges_snoc:
  "edges (mergeGraphDelta now S (D\<lparr> addEdges := Some (bs @ [e]) \<rparr>)) =
     (if source e \<in> nodeIdsOf (nodesAfterUpdate S D)
         \<and> target e \<in> nodeIdsOf (nodesAfterUpdate S D)
         \<and> edge_id e \<notin> edgeIdsOf (edges (mergeGraphDelta now S (D\<lparr> addEdges := Some bs \<rparr>)))
      then edges (mergeGraphDelta now S (D\<lparr> addEdges := Some bs \<rparr>)) @ [e]
      else edges (mergeGraphDelta now S (D\<lparr> addEdges := Some bs \<rparr>)))"
proof -
  let ?N = "nodeIdsOf (nodesAfterUpdate S D)"
  let ?P = "\<lambda>e. source e \<in> ?N \<and> target e \<in> ?N"
  let ?G = "edgesAfterRemoval S D"
  have before: "edges (mergeGraphDelta now S (D\<lparr> addEdges := Some bs \<rparr>)) =
      ?G @ newByKey edge_id (edgeIdsOf ?G) (filter ?P bs)"
    by (simp add: merge_edges optList_def)
  have ids: "edgeIdsOf (?G @ newByKey edge_id (edgeIdsOf ?G) (filter ?P bs)) =
      edgeIdsOf ?G \<union> edge_id ` set (filter ?P bs)"
  proof -
    have "edgeIdsOf (?G @ newByKey edge_id (edgeIdsOf ?G) (filter ?P bs)) =
        edgeIdsOf ?G \<union> (edgeIdsOf (filter ?P bs) - edgeIdsOf ?G)"
      by (simp only: edgeIdsOf_append edgeIdsOf_newByKey)
    also have "\<dots> = edgeIdsOf ?G \<union> edgeIdsOf (filter ?P bs)" by blast
    also have "edgeIdsOf (filter ?P bs) = edge_id ` set (filter ?P bs)"
      by (simp only: edgeIdsOf_def set_map)
    finally show ?thesis .
  qed
  have after: "edges (mergeGraphDelta now S (D\<lparr> addEdges := Some (bs @ [e]) \<rparr>)) =
      ?G @ newByKey edge_id (edgeIdsOf ?G) (filter ?P (bs @ [e]))"
    by (simp add: merge_edges optList_def)
  show ?thesis
  proof (cases "?P e")
    case True
    then have "filter ?P (bs @ [e]) = filter ?P bs @ [e]" by simp
    then show ?thesis
      unfolding after before ids using True by (simp add: newByKey_snoc)
  next
    case False
    then have "filter ?P (bs @ [e]) = filter ?P bs" by auto
    then show ?thesis
      unfolding after before using False by auto
  qed
qed

lemma nodesAfterRemoval_addNodes [simp]:
  "nodesAfterRemoval S (D\<lparr> addNodes := x \<rparr>) = nodesAfterRemoval S D"
  by (simp add: nodesAfterRemoval_def)

lemma edgesAfterRemoval_addNodes [simp]:
  "edgesAfterRemoval S (D\<lparr> addNodes := x \<rparr>) = edgesAfterRemoval S D"
  by (simp add: edgesAfterRemoval_def)

lemma nodesAfterAdd_snoc:
  "nodesAfterAdd S (D\<lparr> addNodes := Some (as @ [a]) \<rparr>) =
     (if node_id a \<in> nodeIdsOf (nodesAfterAdd S (D\<lparr> addNodes := Some as \<rparr>))
      then nodesAfterAdd S (D\<lparr> addNodes := Some as \<rparr>)
      else nodesAfterAdd S (D\<lparr> addNodes := Some as \<rparr>) @ [a])"
proof -
  have "nodeIdsOf (nodesAfterAdd S (D\<lparr> addNodes := Some as \<rparr>)) =
      nodeIdsOf (nodesAfterRemoval S D) \<union> node_id ` set as"
    by (simp add: nodeIdsOf_nodesAfterAdd optList_def) (simp add: nodeIdsOf_def)
  then show ?thesis
    by (simp add: nodesAfterAdd_eq optList_def newByKey_snoc)
qed

lemma merge_cong_nodesAfterAdd:
  assumes "nodesAfterAdd S (D\<lparr> addNodes := x \<rparr>) = nodesAfterAdd S (D\<lparr> addNodes := y \<rparr>)"
  shows "mergeGraphDelta now S (D\<lparr> addNodes := x \<rparr>) = mergeGraphDelta now S (D\<lparr> addNodes := y \<rparr>)"
  using assms by (simp add: mergeGraphDelta_def nodesAfterUpdate_def)

lemma newByKey_refill:
  "set (filter P (newByKey key seen as))
     \<union> set (newByKey key (seen \<union> key ` set (filter P (newByKey key seen as))) as)
   = set (newByKey key seen as)"
proof -
  let ?Y = "newByKey key seen as"
  let ?T = "key ` set (filter P ?Y)"
  have inj: "inj_on key (set ?Y)"
    using newByKey_distinct [of key seen as] by (simp add: distinct_map)
  have second: "newByKey key (seen \<union> ?T) as = filter (\<lambda>a. key a \<notin> ?T) ?Y"
    by (rule newByKey_union)
  have "set (filter P ?Y) \<union> set (filter (\<lambda>a. key a \<notin> ?T) ?Y) = set ?Y"
  proof (rule equalityI)
    show "set (filter P ?Y) \<union> set (filter (\<lambda>a. key a \<notin> ?T) ?Y) \<subseteq> set ?Y" by auto
  next
    show "set ?Y \<subseteq> set (filter P ?Y) \<union> set (filter (\<lambda>a. key a \<notin> ?T) ?Y)"
    proof
      fix y
      assume y: "y \<in> set ?Y"
      show "y \<in> set (filter P ?Y) \<union> set (filter (\<lambda>a. key a \<notin> ?T) ?Y)"
      proof (cases "P y")
        case True
        with y show ?thesis by simp
      next
        case False
        have "key y \<notin> ?T"
        proof
          assume "key y \<in> ?T"
          then obtain z where z: "z \<in> set ?Y" "P z" "key y = key z" by auto
          from inj z(3) y z(1) have "y = z" by (rule inj_onD)
          with z(2) False show False by simp
        qed
        with y show ?thesis by simp
      qed
    qed
  qed
  with second show ?thesis by simp
qed

lemma mergeUpdate_id: "node_id (mergeUpdate n u) = node_id n"
  by (simp add: mergeUpdate_def)

lemma spreadKey_idem: "spreadKey (spreadKey old new) new = spreadKey old new"
  by (simp add: spreadKey_def split: option.splits)

lemma spreadData_idem: "spreadData (spreadData d ud) ud = spreadData d ud"
  by (cases ud) (simp_all add: spreadData_def spreadKey_idem)

lemma nullish_idem: "nullish a (nullish a b) = nullish a b"
  by (simp add: nullish_def split: option.splits)

lemma mergeUpdate_idem: "mergeUpdate (mergeUpdate n u) u = mergeUpdate n u"
  by (simp add: mergeUpdate_def spreadData_idem nullish_idem)

lemma updateNode_idem: "updateNode m (updateNode m n) = updateNode m n"
  by (cases "m (node_id n)") (simp_all add: updateNode_def mergeUpdate_id mergeUpdate_idem)

lemma filter_map_updateNode:
  "filter (\<lambda>n. node_id n \<notin> R) (map (updateNode m) ns) =
     map (updateNode m) (filter (\<lambda>n. node_id n \<notin> R) ns)"
  by (induction ns) (simp_all add: updateNode_id)

lemma nodeIdsOf_merge:
  "nodeIdsOf (nodes (mergeGraphDelta now S D)) =
     (nodeIdsOf (nodes S) - set (optList (removeNodeIds D))) \<union> nodeIdsOf (optList (addNodes D))"
  by (simp add: merge_nodes nodeIdsOf_nodesAfterUpdate nodeIdsOf_nodesAfterAdd
      nodeIdsOf_nodesAfterRemoval)

lemma nodeIdsOf_merge_twice:
  "nodeIdsOf (nodes (mergeGraphDelta t2 (mergeGraphDelta t1 S D) D)) =
     nodeIdsOf (nodes (mergeGraphDelta t1 S D))"
  unfolding nodeIdsOf_merge by blast

lemma merge_twice_nodes:
  "set (nodes (mergeGraphDelta t2 (mergeGraphDelta t1 S D) D)) =
     set (nodes (mergeGraphDelta t1 S D))"
proof -
  let ?R = "set (optList (removeNodeIds D))"
  let ?U = "updateNode (mkUpdateMap (optList (updateNodes D)))"
  let ?F = "nodesAfterRemoval S D"
  let ?A = "optList (addNodes D)"
  let ?X = "newByKey node_id (nodeIdsOf ?F) ?A"
  let ?Xk = "filter (\<lambda>n. node_id n \<notin> ?R) ?X"
  let ?S1 = "mergeGraphDelta t1 S D"
  have FF: "filter (\<lambda>n. node_id n \<notin> ?R) ?F = ?F"
    by (simp add: nodesAfterRemoval_eq)
  have first: "nodes ?S1 = map ?U (?F @ ?X)"
    by (simp add: merge_nodes nodesAfterUpdate_eq nodesAfterAdd_eq)
  have F2: "nodesAfterRemoval ?S1 D = map ?U (?F @ ?Xk)"
    unfolding nodesAfterRemoval_eq [of ?S1] first filter_map_updateNode
    using FF by simp
  have ids2: "nodeIdsOf (map ?U (?F @ ?Xk)) = nodeIdsOf ?F \<union> node_id ` set ?Xk"
    by (simp add: nodeIdsOf_update nodeIdsOf_append) (simp add: nodeIdsOf_def)
  have second: "nodes (mergeGraphDelta t2 ?S1 D) =
      map ?U (map ?U (?F @ ?Xk) @ newByKey node_id (nodeIdsOf ?F \<union> node_id ` set ?Xk) ?A)"
    unfolding merge_nodes nodesAfterUpdate_eq nodesAfterAdd_eq F2 ids2 ..
  have "set (nodes (mergeGraphDelta t2 ?S1 D)) =
      ?U ` (set ?F \<union> (set ?Xk \<union> set (newByKey node_id (nodeIdsOf ?F \<union> node_id ` set ?Xk) ?A)))"
    unfolding second by (simp add: updateNode_idem image_Un image_image)
  also have "set ?Xk \<union> set (newByKey node_id (nodeIdsOf ?F \<union> node_id ` set ?Xk) ?A) = set ?X"
    by (rule newByKey_refill)
  also have "?U ` (set ?F \<union> set ?X) = set (nodes ?S1)"
    unfolding first by (simp add: image_Un)
  finally show ?thesis .
qed

lemma merge_twice_edges:
  "set (edges (mergeGraphDelta t2 (mergeGraphDelta t1 S D) D)) =
     set (edges (mergeGraphDelta t1 S D))"
proof -
  let ?R = "set (optList (removeNodeIds D))"
  let ?RE = "set (optList (removeEdgeIds D))"
  let ?Q = "\<lambda>e. edge_id e \<notin> ?RE \<and> source e \<notin> ?R \<and> target e \<notin> ?R"
  let ?S1 = "mergeGraphDelta t1 S D"
  let ?N = "nodeIdsOf (nodes ?S1)"
  let ?PN = "\<lambda>e. source e \<in> ?N \<and> target e \<in> ?N"
  let ?B = "filter ?PN (optList (addEdges D))"
  let ?G = "edgesAfterRemoval S D"
  let ?Y = "newByKey edge_id (edgeIdsOf ?G) ?B"
  let ?Yk = "filter ?Q ?Y"
  have removal: "edgesAfterRemoval T D = filter ?Q (edges T)" for T
    by (simp add: edgesAfterRemoval_eq conj_commute conj_left_commute)
  have GG: "filter ?Q ?G = ?G"
    unfolding removal by simp
  have first: "edges ?S1 = ?G @ ?Y"
    by (simp add: merge_edges merge_nodes)
  have G2: "edgesAfterRemoval ?S1 D = ?G @ ?Yk"
    unfolding removal [of ?S1] first using GG by simp
  have ids2: "edgeIdsOf (?G @ ?Yk) = edgeIdsOf ?G \<union> edge_id ` set ?Yk"
    by (simp add: edgeIdsOf_append) (simp add: edgeIdsOf_def)
  have N2: "nodeIdsOf (nodesAfterUpdate ?S1 D) = ?N"
    using nodeIdsOf_merge_twice [of t2 t1 S D] by (simp add: merge_nodes)
  have second: "edges (mergeGraphDelta t2 ?S1 D) =
      (?G @ ?Yk) @ newByKey edge_id (edgeIdsOf ?G \<union> edge_id ` set ?Yk) ?B"
    unfolding merge_edges [of t2 ?S1] G2 ids2 N2 ..
  have "set (edges (mergeGraphDelta t2 ?S1 D)) =
      set ?G \<union> (set ?Yk \<union> set (newByKey edge_id (edgeIdsOf ?G \<union> edge_id ` set ?Yk) ?B))"
    unfolding second by (simp add: Un_assoc)
  also have "set ?Yk \<union> set (newByKey edge_id (edgeIdsOf ?G \<union> edge_id ` set ?Yk) ?B) = set ?Y"
    by (rule newByKey_refill)
  also have "set ?G \<union> set ?Y = set (edges ?S1)"
    unfolding first by simp
  finally show ?thesis .
qed

lemma mkUpdateMap_snoc: "mkUpdateMap (us @ [u]) = (mkUpdateMap us)(upd_id u \<mapsto> u)"
  by (simp add: mkUpdateMap_def)

lemma mkUpdateMap_find: "mkUpdateMap us k = find (\<lambda>u. upd_id u = k) (rev us)"
  by (induction us rule: rev_induct) (simp_all add: mkUpdateMap_Nil mkUpdateMap_snoc)

lemma find_skip: "\<not> P b \<Longrightarrow> find P (as @ b # cs) = find P (as @ cs)"
  by (induction as) simp_all

lemma mkUpdateMap_skip:
  "k \<noteq> upd_id u \<Longrightarrow> mkUpdateMap (xs @ u # ys) k = mkUpdateMap (xs @ ys) k"
  by (simp add: mkUpdateMap_find find_skip)

lemma updateNode_skip:
  "node_id n \<noteq> upd_id u \<Longrightarrow>
     updateNode (mkUpdateMap (xs @ u # ys)) n = updateNode (mkUpdateMap (xs @ ys)) n"
  by (simp add: updateNode_def mkUpdateMap_skip)

lemma nodesAfterAdd_updateNodes [simp]:
  "nodesAfterAdd S (D\<lparr> updateNodes := x \<rparr>) = nodesAfterAdd S D"
  by (simp add: nodesAfterAdd_def nodesAfterRemoval_def)

lemma edgesAfterRemoval_updateNodes [simp]:
  "edgesAfterRemoval S (D\<lparr> updateNodes := x \<rparr>) = edgesAfterRemoval S D"
  by (simp add: edgesAfterRemoval_def)

lemma merge_skip_update:
  assumes "upd_id u \<notin> nodeIdsOf (nodesAfterAdd S D)"
  shows "mergeGraphDelta now S (D\<lparr> updateNodes := Some (xs @ u # ys) \<rparr>)
           = mergeGraphDelta now S (D\<lparr> updateNodes := Some (xs @ ys) \<rparr>)"
proof -
  have "map (updateNode (mkUpdateMap (xs @ u # ys))) (nodesAfterAdd S D)
      = map (updateNode (mkUpdateMap (xs @ ys))) (nodesAfterAdd S D)"
  proof (rule map_cong [OF refl])
    fix n
    assume "n \<in> set (nodesAfterAdd S D)"
    then have "node_id n \<in> nodeIdsOf (nodesAfterAdd S D)" by (simp add: nodeIdsOf_def)
    with assms have "node_id n \<noteq> upd_id u" by metis
    then show "updateNode (mkUpdateMap (xs @ u # ys)) n = updateNode (mkUpdateMap (xs @ ys)) n"
      by (rule updateNode_skip)
  qed
  then have "nodesAfterUpdate S (D\<lparr> updateNodes := Some (xs @ u # ys) \<rparr>)
      = nodesAfterUpdate S (D\<lparr> updateNodes := Some (xs @ ys) \<rparr>)"
    by (simp add: nodesAfterUpdate_eq optList_def)
  then show ?thesis by (simp add: mergeGraphDelta_def)
qed

lemma mergeUpdate_fields:
  "node_id (mergeUpdate n u) = node_id n
   \<and> position (mergeUpdate n u) = position n
   \<and> label (mergeUpdate n u) = (case upd_label u of None \<Rightarrow> label n | Some l \<Rightarrow> l)
   \<and> node_kind (mergeUpdate n u) = (case upd_kind u of None \<Rightarrow> node_kind n | Some k \<Rightarrow> k)
   \<and> (case upd_data u of
        None \<Rightarrow> node_data (mergeUpdate n u) = node_data n
      | Some d \<Rightarrow>
          summary (node_data (mergeUpdate n u))
            = (case summary d of None \<Rightarrow> summary (node_data n) | Some v \<Rightarrow> Some v)
          \<and> methods (node_data (mergeUpdate n u))
            = (case methods d of None \<Rightarrow> methods (node_data n) | Some v \<Rightarrow> Some v)
          \<and> data_fields (node_data (mergeUpdate n u))
            = (case data_fields d of None \<Rightarrow> data_fields (node_data n) | Some v \<Rightarrow> Some v)
          \<and> filePath (node_data (mergeUpdate n u))
            = (case filePath d of None \<Rightarrow> filePath (node_data n) | Some v \<Rightarrow> Some v))"
  by (simp add: mergeUpdate_def nullish_def spreadData_def spreadKey_def split: option.splits)

subsection \<open>C1: no dangling edges\<close>

text \<open>
  C1 (amended). If no edge of the state \<open>S\<close> dangles, then no edge of
  \<open>mergeGraphDelta now S D\<close> dangles, for every delta \<open>D\<close>: every edge of the result has
  its source and its target among the node ids of the result. Node removal filters the
  edges by the removed ids, node updates keep every id, and an added edge passes the
  check against the node ids after steps 1 to 4.
\<close>

theorem merge_preserves_no_dangling:
  assumes "noDanglingEdges S"
  shows "noDanglingEdges (mergeGraphDelta now S D)"
proof -
  let ?N = "nodeIdsOf (nodesAfterUpdate S D)"
  have kept: "source e \<in> ?N \<and> target e \<in> ?N" if "e \<in> set (edgesAfterRemoval S D)" for e
  proof -
    from that have e: "e \<in> set (edges S)"
      and s: "source e \<notin> set (optList (removeNodeIds D))"
      and t: "target e \<notin> set (optList (removeNodeIds D))"
      by (auto simp: edgesAfterRemoval_eq)
    from assms e have "source e \<in> nodeIdsOf (nodes S)" "target e \<in> nodeIdsOf (nodes S)"
      by (auto simp: noDanglingEdges_def)
    with s t show ?thesis
      by (simp add: nodeIdsOf_nodesAfterUpdate nodeIdsOf_nodesAfterAdd nodeIdsOf_nodesAfterRemoval)
  qed
  have added: "source e \<in> ?N \<and> target e \<in> ?N"
    if "e \<in> set (newByKey edge_id seen
                    (filter (\<lambda>e. source e \<in> ?N \<and> target e \<in> ?N) (optList (addEdges D))))"
    for e seen
  proof -
    from that newByKey_subset [of edge_id seen
        "filter (\<lambda>e. source e \<in> ?N \<and> target e \<in> ?N) (optList (addEdges D))"]
    have "e \<in> set (filter (\<lambda>e. source e \<in> ?N \<and> target e \<in> ?N) (optList (addEdges D)))"
      by (rule rev_subsetD)
    then show ?thesis by simp
  qed
  show ?thesis
    unfolding noDanglingEdges_def merge_nodes
  proof (rule ballI)
    fix e
    assume "e \<in> set (edges (mergeGraphDelta now S D))"
    then have "e \<in> set (edgesAfterRemoval S D)
        \<or> e \<in> set (newByKey edge_id (edgeIdsOf (edgesAfterRemoval S D))
                    (filter (\<lambda>e. source e \<in> ?N \<and> target e \<in> ?N) (optList (addEdges D))))"
      by (simp add: merge_edges)
    then show "source e \<in> ?N \<and> target e \<in> ?N"
      using kept [of e] added [of e] by blast
  qed
qed

text \<open>
  C1 as stated, for all states, fails: the function does not repair its input. A state
  with no node and the edge \<open>e1\<close> from \<open>a\<close> to \<open>b\<close>, merged with the empty delta, still
  holds the dangling edge \<open>e1\<close>.
\<close>

theorem merge_dangling_counterexample:
  "\<not> noDanglingEdges (mergeGraphDelta ''t1'' (exState [] [exEdge ''e1'' ''a'' ''b'']) emptyDelta)"
  by (simp add: merge_unfold)

text \<open>
  The theorem at a state with nodes \<open>a\<close>, \<open>b\<close> and the edge \<open>e1\<close> from \<open>a\<close> to \<open>b\<close>, and
  a delta that removes \<open>a\<close>, adds \<open>c\<close> and adds the edges \<open>e2\<close> (from \<open>c\<close> to \<open>b\<close>) and
  \<open>e3\<close> (from the removed \<open>a\<close> to \<open>b\<close>).
\<close>

theorem merge_preserves_no_dangling_witness:
  "noDanglingEdges (exState [exNode ''a'' ''A'', exNode ''b'' ''B''] [exEdge ''e1'' ''a'' ''b''])
   \<and> noDanglingEdges
        (mergeGraphDelta ''t1''
           (exState [exNode ''a'' ''A'', exNode ''b'' ''B''] [exEdge ''e1'' ''a'' ''b''])
           (emptyDelta\<lparr> removeNodeIds := Some [''a''],
                         addNodes := Some [exNode ''c'' ''C''],
                         addEdges := Some [exEdge ''e2'' ''c'' ''b'', exEdge ''e3'' ''a'' ''b''] \<rparr>))"
proof -
  have h: "noDanglingEdges
             (exState [exNode ''a'' ''A'', exNode ''b'' ''B''] [exEdge ''e1'' ''a'' ''b''])"
    by (simp add: merge_unfold)
  from h merge_preserves_no_dangling [OF h] show ?thesis by (rule conjI)
qed

subsection \<open>C2: gating of added edges\<close>

text \<open>
  C2. Entry \<open>i\<close> of \<^verbatim>\<open>addEdges\<close> is appended exactly when its source and its target are
  node ids after steps 1 to 4 and its id is not the id of an edge present when the entry
  is reached (an edge left by the removal steps or an earlier entry that was appended):
  the edges of the merge with the first \<open>i + 1\<close> entries are those of the merge with the
  first \<open>i\<close> entries, followed by entry \<open>i\<close> exactly under that condition. With no
  entry the edges are those left by the removal steps. The nodes of the result do not
  depend on \<^verbatim>\<open>addEdges\<close>, so a dropped edge leaves the rest of the delta applied, and
  every id of \<^verbatim>\<open>addNodes\<close> is a node id after steps 1 to 4, so an edge between nodes
  added by the same delta passes the endpoint check. The function has no error result.
\<close>

theorem addEdges_gating:
  assumes "i < length es"
  shows
    "edges (mergeGraphDelta now S (D\<lparr> addEdges := Some (take (Suc i) es) \<rparr>)) =
       (if source (es ! i) \<in> nodeIdsOf (nodesAfterUpdate S D)
           \<and> target (es ! i) \<in> nodeIdsOf (nodesAfterUpdate S D)
           \<and> edge_id (es ! i)
               \<notin> edgeIdsOf (edges (mergeGraphDelta now S (D\<lparr> addEdges := Some (take i es) \<rparr>)))
        then edges (mergeGraphDelta now S (D\<lparr> addEdges := Some (take i es) \<rparr>)) @ [es ! i]
        else edges (mergeGraphDelta now S (D\<lparr> addEdges := Some (take i es) \<rparr>)))
     \<and> edges (mergeGraphDelta now S (D\<lparr> addEdges := Some (take 0 es) \<rparr>)) = edgesAfterRemoval S D
     \<and> nodes (mergeGraphDelta now S (D\<lparr> addEdges := Some es \<rparr>))
         = nodes (mergeGraphDelta now S (D\<lparr> addEdges := None \<rparr>))
     \<and> nodeIdsOf (optList (addNodes D)) \<subseteq> nodeIdsOf (nodesAfterUpdate S D)"
proof -
  from assms have "take (Suc i) es = take i es @ [es ! i]"
    by (rule take_Suc_conv_app_nth)
  then have step: "edges (mergeGraphDelta now S (D\<lparr> addEdges := Some (take (Suc i) es) \<rparr>)) =
       (if source (es ! i) \<in> nodeIdsOf (nodesAfterUpdate S D)
           \<and> target (es ! i) \<in> nodeIdsOf (nodesAfterUpdate S D)
           \<and> edge_id (es ! i)
               \<notin> edgeIdsOf (edges (mergeGraphDelta now S (D\<lparr> addEdges := Some (take i es) \<rparr>)))
        then edges (mergeGraphDelta now S (D\<lparr> addEdges := Some (take i es) \<rparr>)) @ [es ! i]
        else edges (mergeGraphDelta now S (D\<lparr> addEdges := Some (take i es) \<rparr>)))"
    using merge_edges_snoc [where bs = "take i es" and e = "es ! i" and S = S and D = D and now = now]
    by simp
  have base: "edges (mergeGraphDelta now S (D\<lparr> addEdges := Some (take 0 es) \<rparr>))
      = edgesAfterRemoval S D"
    by (simp add: merge_edges optList_def)
  have nodes_same: "nodes (mergeGraphDelta now S (D\<lparr> addEdges := Some es \<rparr>))
         = nodes (mergeGraphDelta now S (D\<lparr> addEdges := None \<rparr>))"
    by (simp add: merge_nodes)
  have added: "nodeIdsOf (optList (addNodes D)) \<subseteq> nodeIdsOf (nodesAfterUpdate S D)"
    by (simp add: nodeIdsOf_nodesAfterUpdate nodeIdsOf_nodesAfterAdd)
  from step base nodes_same added show ?thesis by (intro conjI)
qed

text \<open>
  Scenarios B and C of the specification in one delta: on a state with nodes \<open>a\<close> and
  \<open>b\<close> and no edge, \<open>e1\<close> from \<open>a\<close> to \<open>b\<close> is appended and \<open>e2\<close> from \<open>a\<close> to the
  missing \<open>zzz\<close> is dropped.
\<close>

theorem addEdges_gating_witness:
  "(1::nat) < length [exEdge ''e1'' ''a'' ''b'', exEdge ''e2'' ''a'' ''zzz'']
   \<and> edges (mergeGraphDelta ''t1'' (exState [exNode ''a'' ''A'', exNode ''b'' ''B''] [])
        (emptyDelta\<lparr> addEdges :=
           Some (take (Suc 1) [exEdge ''e1'' ''a'' ''b'', exEdge ''e2'' ''a'' ''zzz'']) \<rparr>))
     = [exEdge ''e1'' ''a'' ''b'']"
proof -
  have h: "(1::nat) < length [exEdge ''e1'' ''a'' ''b'', exEdge ''e2'' ''a'' ''zzz'']" by simp
  show ?thesis
    using h addEdges_gating [OF h, of "''t1''" "exState [exNode ''a'' ''A'', exNode ''b'' ''B''] []"
        emptyDelta]
    by (simp add: merge_unfold)
qed

subsection \<open>C3: node updates\<close>

text \<open>
  C3 (amended). The update step keeps the length and the order of the node list. Node
  \<open>i\<close> is unchanged when no entry of \<^verbatim>\<open>updateNodes\<close> has its id; otherwise it is merged
  with the last entry that has its id, and earlier entries with the same id are ignored.
  The merge with an entry keeps \<^verbatim>\<open>id\<close> and \<^verbatim>\<open>position\<close>, replaces \<^verbatim>\<open>label\<close> and \<^verbatim>\<open>kind\<close>
  exactly when the entry supplies them, keeps \<^verbatim>\<open>data\<close> when the entry has none, and
  otherwise replaces exactly the keys of \<^verbatim>\<open>data\<close> that the entry supplies, a supplied
  \<^verbatim>\<open>methods\<close> or \<^verbatim>\<open>fields\<close> array replacing the old one whole. An entry whose id is the id
  of no node can be deleted from the list without changing the result of the merge.
\<close>

theorem updateNodes_last_entry:
  "length (nodes (mergeGraphDelta now S D)) = length (nodesAfterAdd S D)
   \<and> (\<forall>i < length (nodesAfterAdd S D).
        nodes (mergeGraphDelta now S D) ! i =
          (case find (\<lambda>u. upd_id u = node_id (nodesAfterAdd S D ! i))
                  (rev (optList (updateNodes D))) of
             None \<Rightarrow> nodesAfterAdd S D ! i
           | Some u \<Rightarrow> mergeUpdate (nodesAfterAdd S D ! i) u))
   \<and> (\<forall>n u. node_id (mergeUpdate n u) = node_id n
        \<and> position (mergeUpdate n u) = position n
        \<and> label (mergeUpdate n u) = (case upd_label u of None \<Rightarrow> label n | Some l \<Rightarrow> l)
        \<and> node_kind (mergeUpdate n u) = (case upd_kind u of None \<Rightarrow> node_kind n | Some k \<Rightarrow> k)
        \<and> (case upd_data u of
             None \<Rightarrow> node_data (mergeUpdate n u) = node_data n
           | Some d \<Rightarrow>
               summary (node_data (mergeUpdate n u))
                 = (case summary d of None \<Rightarrow> summary (node_data n) | Some v \<Rightarrow> Some v)
               \<and> methods (node_data (mergeUpdate n u))
                 = (case methods d of None \<Rightarrow> methods (node_data n) | Some v \<Rightarrow> Some v)
               \<and> data_fields (node_data (mergeUpdate n u))
                 = (case data_fields d of None \<Rightarrow> data_fields (node_data n) | Some v \<Rightarrow> Some v)
               \<and> filePath (node_data (mergeUpdate n u))
                 = (case filePath d of None \<Rightarrow> filePath (node_data n) | Some v \<Rightarrow> Some v)))
   \<and> (\<forall>xs u ys. upd_id u \<notin> nodeIdsOf (nodesAfterAdd S D) \<longrightarrow>
        mergeGraphDelta now S (D\<lparr> updateNodes := Some (xs @ u # ys) \<rparr>)
          = mergeGraphDelta now S (D\<lparr> updateNodes := Some (xs @ ys) \<rparr>))"
proof (intro conjI allI impI)
  show "length (nodes (mergeGraphDelta now S D)) = length (nodesAfterAdd S D)"
    by (simp add: merge_nodes nodesAfterUpdate_eq)
next
  fix i
  assume "i < length (nodesAfterAdd S D)"
  then show "nodes (mergeGraphDelta now S D) ! i =
          (case find (\<lambda>u. upd_id u = node_id (nodesAfterAdd S D ! i))
                  (rev (optList (updateNodes D))) of
             None \<Rightarrow> nodesAfterAdd S D ! i
           | Some u \<Rightarrow> mergeUpdate (nodesAfterAdd S D ! i) u)"
    by (simp add: merge_nodes nodesAfterUpdate_eq updateNode_def mkUpdateMap_find)
next
  fix xs ys :: "NodeUpdate list" and u :: NodeUpdate
  assume "upd_id u \<notin> nodeIdsOf (nodesAfterAdd S D)"
  then show "mergeGraphDelta now S (D\<lparr> updateNodes := Some (xs @ u # ys) \<rparr>)
          = mergeGraphDelta now S (D\<lparr> updateNodes := Some (xs @ ys) \<rparr>)"
    by (rule merge_skip_update)
qed (simp_all add: mergeUpdate_fields)

text \<open>
  C3 as stated, for every entry whose id matches a node, fails when two entries share an
  id: the \<^verbatim>\<open>Map\<close> built from the entries keeps the last one only. On a node \<open>a\<close> with label
  \<open>A\<close>, the entries \<^verbatim>\<open>{id: a, label: X}\<close> and \<^verbatim>\<open>{id: a}\<close> leave the label \<open>A\<close>: the
  first entry matches the node and supplies a label, which is not written.
\<close>

theorem updateNodes_every_entry_counterexample:
  "map label (nodes (mergeGraphDelta ''t1'' (exState [exNode ''a'' ''A''] [])
      (emptyDelta\<lparr> updateNodes :=
         Some [exUpdate ''a'' (Some ''X'') None, exUpdate ''a'' None None] \<rparr>)))
   = [''A'']"
  by (simp add: merge_unfold exUpdate_def mkUpdateMap_def updateNode_def mergeUpdate_def
      nullish_def spreadData_def)

text \<open>
  The theorem at node \<open>0\<close> of a state with one node \<open>a\<close> that has a summary and two
  methods, and the entries \<^verbatim>\<open>{id: zzz, label: Z}\<close> (no such node) and
  \<^verbatim>\<open>{id: a, label: X, data: {methods: [m3]}}\<close>: the label and the methods are replaced,
  the summary is kept.
\<close>

theorem updateNodes_last_entry_witness:
  "(0::nat) < length (nodesAfterAdd
        (exState [(exNode ''a'' ''A'')\<lparr> node_data :=
             \<lparr> summary = Some ''s'', methods = Some [''m1'', ''m2''], data_fields = None,
               filePath = None \<rparr> \<rparr>] [])
        (emptyDelta\<lparr> updateNodes :=
           Some [exUpdate ''zzz'' (Some ''Z'') None,
                 exUpdate ''a'' (Some ''X'')
                   (Some \<lparr> summary = None, methods = Some [''m3''], data_fields = None,
                           filePath = None \<rparr>)] \<rparr>))
   \<and> nodes (mergeGraphDelta ''t1''
        (exState [(exNode ''a'' ''A'')\<lparr> node_data :=
             \<lparr> summary = Some ''s'', methods = Some [''m1'', ''m2''], data_fields = None,
               filePath = None \<rparr> \<rparr>] [])
        (emptyDelta\<lparr> updateNodes :=
           Some [exUpdate ''zzz'' (Some ''Z'') None,
                 exUpdate ''a'' (Some ''X'')
                   (Some \<lparr> summary = None, methods = Some [''m3''], data_fields = None,
                           filePath = None \<rparr>)] \<rparr>)) ! 0
     = (exNode ''a'' ''X'')\<lparr> node_data :=
             \<lparr> summary = Some ''s'', methods = Some [''m3''], data_fields = None,
               filePath = None \<rparr> \<rparr>"
  using updateNodes_last_entry [of "''t1''"
        "exState [(exNode ''a'' ''A'')\<lparr> node_data :=
             \<lparr> summary = Some ''s'', methods = Some [''m1'', ''m2''], data_fields = None,
               filePath = None \<rparr> \<rparr>] []"
        "emptyDelta\<lparr> updateNodes :=
           Some [exUpdate ''zzz'' (Some ''Z'') None,
                 exUpdate ''a'' (Some ''X'')
                   (Some \<lparr> summary = None, methods = Some [''m3''], data_fields = None,
                           filePath = None \<rparr>)] \<rparr>"]
  by (simp add: merge_unfold exUpdate_def mkUpdateMap_def updateNode_def mergeUpdate_def
      nullish_def spreadData_def spreadKey_def optList_def)

subsection \<open>C4: duplicate node additions\<close>

text \<open>
  C4. When the id of entry \<open>i\<close> of \<^verbatim>\<open>addNodes\<close> is already an id of the working node list
  (the nodes left by the removal step followed by the earlier entries that were
  appended), the entry is dropped: the working list after entry \<open>i\<close> is the list before
  it, and the whole merge result with the first \<open>i + 1\<close> entries equals the result with
  the first \<open>i\<close> entries, so the node that was there first keeps every field. Otherwise
  the entry is appended at the end. With no entry the working list is the list left by
  the removal step. The function has no error result.
\<close>

theorem addNodes_first_writer_wins:
  assumes "i < length as"
  shows
    "(node_id (as ! i) \<in> nodeIdsOf (nodesAfterAdd S (D\<lparr> addNodes := Some (take i as) \<rparr>)) \<longrightarrow>
        nodesAfterAdd S (D\<lparr> addNodes := Some (take (Suc i) as) \<rparr>)
          = nodesAfterAdd S (D\<lparr> addNodes := Some (take i as) \<rparr>)
        \<and> mergeGraphDelta now S (D\<lparr> addNodes := Some (take (Suc i) as) \<rparr>)
          = mergeGraphDelta now S (D\<lparr> addNodes := Some (take i as) \<rparr>))
     \<and> (node_id (as ! i) \<notin> nodeIdsOf (nodesAfterAdd S (D\<lparr> addNodes := Some (take i as) \<rparr>)) \<longrightarrow>
        nodesAfterAdd S (D\<lparr> addNodes := Some (take (Suc i) as) \<rparr>)
          = nodesAfterAdd S (D\<lparr> addNodes := Some (take i as) \<rparr>) @ [as ! i])
     \<and> nodesAfterAdd S (D\<lparr> addNodes := Some (take 0 as) \<rparr>) = nodesAfterRemoval S D"
proof -
  from assms have split: "take (Suc i) as = take i as @ [as ! i]"
    by (rule take_Suc_conv_app_nth)
  have step: "nodesAfterAdd S (D\<lparr> addNodes := Some (take (Suc i) as) \<rparr>) =
     (if node_id (as ! i) \<in> nodeIdsOf (nodesAfterAdd S (D\<lparr> addNodes := Some (take i as) \<rparr>))
      then nodesAfterAdd S (D\<lparr> addNodes := Some (take i as) \<rparr>)
      else nodesAfterAdd S (D\<lparr> addNodes := Some (take i as) \<rparr>) @ [as ! i])"
    unfolding split by (rule nodesAfterAdd_snoc)
  have base: "nodesAfterAdd S (D\<lparr> addNodes := Some (take 0 as) \<rparr>) = nodesAfterRemoval S D"
    by (simp add: nodesAfterAdd_eq optList_def)
  show ?thesis
  proof (cases "node_id (as ! i) \<in> nodeIdsOf (nodesAfterAdd S (D\<lparr> addNodes := Some (take i as) \<rparr>))")
    case True
    with step have same: "nodesAfterAdd S (D\<lparr> addNodes := Some (take (Suc i) as) \<rparr>)
          = nodesAfterAdd S (D\<lparr> addNodes := Some (take i as) \<rparr>)"
      by simp
    from same merge_cong_nodesAfterAdd [OF same] True base show ?thesis by simp
  next
    case False
    with step base show ?thesis by simp
  qed
qed

text \<open>
  The theorem at entry \<open>0\<close> of \<^verbatim>\<open>addNodes\<close> = [\<open>a\<close> with label \<open>A2\<close>, \<open>b\<close>] on a state whose
  only node is \<open>a\<close> with label \<open>A\<close>: the entry is dropped and \<open>a\<close> keeps its label.
\<close>

theorem addNodes_first_writer_wins_witness:
  "(0::nat) < length [exNode ''a'' ''A2'', exNode ''b'' ''B'']
   \<and> node_id ([exNode ''a'' ''A2'', exNode ''b'' ''B''] ! 0)
       \<in> nodeIdsOf (nodesAfterAdd (exState [exNode ''a'' ''A''] [])
            (emptyDelta\<lparr> addNodes := Some (take 0 [exNode ''a'' ''A2'', exNode ''b'' ''B'']) \<rparr>))
   \<and> mergeGraphDelta ''t1'' (exState [exNode ''a'' ''A''] [])
        (emptyDelta\<lparr> addNodes := Some (take (Suc 0) [exNode ''a'' ''A2'', exNode ''b'' ''B'']) \<rparr>)
     = mergeGraphDelta ''t1'' (exState [exNode ''a'' ''A''] [])
        (emptyDelta\<lparr> addNodes := Some (take 0 [exNode ''a'' ''A2'', exNode ''b'' ''B'']) \<rparr>)
   \<and> nodes (mergeGraphDelta ''t1'' (exState [exNode ''a'' ''A''] [])
        (emptyDelta\<lparr> addNodes := Some [exNode ''a'' ''A2'', exNode ''b'' ''B''] \<rparr>))
     = [exNode ''a'' ''A'', exNode ''b'' ''B'']"
proof -
  have h: "(0::nat) < length [exNode ''a'' ''A2'', exNode ''b'' ''B'']" by simp
  have m: "node_id ([exNode ''a'' ''A2'', exNode ''b'' ''B''] ! 0)
       \<in> nodeIdsOf (nodesAfterAdd (exState [exNode ''a'' ''A''] [])
            (emptyDelta\<lparr> addNodes := Some (take 0 [exNode ''a'' ''A2'', exNode ''b'' ''B'']) \<rparr>))"
    by (simp add: merge_unfold)
  have v: "nodes (mergeGraphDelta ''t1'' (exState [exNode ''a'' ''A''] [])
        (emptyDelta\<lparr> addNodes := Some [exNode ''a'' ''A2'', exNode ''b'' ''B''] \<rparr>))
     = [exNode ''a'' ''A'', exNode ''b'' ''B'']"
    by (simp add: merge_unfold)
  from addNodes_first_writer_wins [OF h, of "exState [exNode ''a'' ''A''] []" emptyDelta "''t1''"] m
  have "mergeGraphDelta ''t1'' (exState [exNode ''a'' ''A''] [])
        (emptyDelta\<lparr> addNodes := Some (take (Suc 0) [exNode ''a'' ''A2'', exNode ''b'' ''B'']) \<rparr>)
     = mergeGraphDelta ''t1'' (exState [exNode ''a'' ''A''] [])
        (emptyDelta\<lparr> addNodes := Some (take 0 [exNode ''a'' ''A2'', exNode ''b'' ''B'']) \<rparr>)"
    by blast
  with h m v show ?thesis by (intro conjI)
qed

subsection \<open>C6: the empty delta\<close>

text \<open>
  C6. Merging the empty delta \<^verbatim>\<open>{}\<close> into any state returns the same node list and the
  same edge list, and a meta object with the same \<^verbatim>\<open>projectId\<close>; the only field that is
  written is \<^verbatim>\<open>meta.updatedAt\<close>, which becomes the clock reading. This holds for every
  state, so in particular for every valid one.
\<close>

theorem merge_empty_delta:
  "mergeGraphDelta now S emptyDelta = S\<lparr> meta := (meta S)\<lparr> updatedAt := now \<rparr> \<rparr>
   \<and> nodes (mergeGraphDelta now S emptyDelta) = nodes S
   \<and> edges (mergeGraphDelta now S emptyDelta) = edges S
   \<and> projectId (meta (mergeGraphDelta now S emptyDelta)) = projectId (meta S)
   \<and> updatedAt (meta (mergeGraphDelta now S emptyDelta)) = now"
  by (simp add: mergeGraphDelta_def emptyDelta_def nodesAfterUpdate_def nodesAfterAdd_def
      nodesAfterRemoval_def edgesAfterRemoval_def removeNodesStep_def removeEdgesStep_def
      addNodesStep_def updateNodesStep_def addEdgesStep_def)

subsection \<open>C10: merging the same delta twice\<close>

text \<open>
  C10. For every state \<open>S\<close> and delta \<open>D\<close>, merging \<open>D\<close> into \<open>mergeGraphDelta t1 S D\<close> gives
  a state with the same set of nodes and the same set of edges as
  \<open>mergeGraphDelta t1 S D\<close>, whatever the two clock readings are.
\<close>

theorem merge_idempotent:
  "set (nodes (mergeGraphDelta t2 (mergeGraphDelta t1 S D) D))
     = set (nodes (mergeGraphDelta t1 S D))
   \<and> set (edges (mergeGraphDelta t2 (mergeGraphDelta t1 S D) D))
     = set (edges (mergeGraphDelta t1 S D))"
  using merge_twice_nodes [of t2 t1 S D] merge_twice_edges [of t2 t1 S D] by (rule conjI)

section \<open>Properties of the integrity validator\<close>

subsection \<open>Auxiliary lemmas\<close>

lemma nodeDupLoop_eq:
  "nodeDupLoop ns (seen, errs) =
     (seen \<union> set (map node_id ns),
      errs @ map (\<lambda>k. ''Duplicate node ID: '' @ k) (dupKeys seen (map node_id ns)))"
  by (induction ns arbitrary: seen errs) (simp_all add: insert_absorb)

lemma edgeDupLoop_eq:
  "edgeDupLoop es (seen, errs) =
     (seen \<union> set (map edge_id es),
      errs @ map (\<lambda>k. ''Duplicate edge ID: '' @ k) (dupKeys seen (map edge_id es)))"
  by (induction es arbitrary: seen errs) (simp_all add: insert_absorb)

lemma edgeRefLoop_eq:
  "edgeRefLoop nodeIds es errs = errs @ concat (map (refErrors nodeIds) es)"
  by (induction es arbitrary: errs) (simp_all add: refErrors_def Let_def)

lemma dupKeys_Nil_iff: "dupKeys seen ks = [] \<longleftrightarrow> distinct ks \<and> set ks \<inter> seen = {}"
  by (induction ks arbitrary: seen) auto

lemma dupKeys_length: "length (dupKeys seen ks) + card (set ks - seen) = length ks"
proof (induction ks arbitrary: seen)
  case Nil
  then show ?case by simp
next
  case (Cons k ks)
  show ?case
  proof (cases "k \<in> seen")
    case True
    then have "set (k # ks) - seen = set ks - seen" by auto
    with True Cons.IH [of seen] show ?thesis by simp
  next
    case False
    have eq: "set (k # ks) - seen = insert k (set ks - insert k seen)"
      using False by auto
    have "card (set (k # ks) - seen) = Suc (card (set ks - insert k seen))"
      unfolding eq by (rule card_insert_disjoint) auto
    with False Cons.IH [of "insert k seen"] show ?thesis by simp
  qed
qed

lemma dupKeys_count: "length (dupKeys {} ks) = length ks - card (set ks)"
  using dupKeys_length [of "{}" ks] by simp

lemma refErrors_Nil_iff:
  "refErrors nodeIds e = [] \<longleftrightarrow> source e \<in> nodeIds \<and> target e \<in> nodeIds"
  by (simp add: refErrors_def)

lemma concat_refErrors_Nil_iff:
  "concat (map (refErrors nodeIds) es) = [] \<longleftrightarrow>
     (\<forall>e \<in> set es. source e \<in> nodeIds \<and> target e \<in> nodeIds)"
  by (induction es) (simp_all add: refErrors_Nil_iff)

lemma refErrors_count:
  "length (concat (map (refErrors nodeIds) es)) =
     length (filter (\<lambda>e. source e \<notin> nodeIds) es) + length (filter (\<lambda>e. target e \<notin> nodeIds) es)"
  by (induction es) (simp_all add: refErrors_def)

lemma validate_errors:
  "errors (validateGraphState S) =
     map (\<lambda>k. ''Duplicate node ID: '' @ k) (dupKeys {} (map node_id (nodes S)))
     @ map (\<lambda>k. ''Duplicate edge ID: '' @ k) (dupKeys {} (map edge_id (edges S)))
     @ concat (map (refErrors (set (map node_id (nodes S)))) (edges S))"
  by (simp add: validateGraphState_def Let_def nodeDupLoop_eq edgeDupLoop_eq edgeRefLoop_eq)

lemma validate_valid: "valid (validateGraphState S) \<longleftrightarrow> errors (validateGraphState S) = []"
  by (simp add: validateGraphState_def Let_def)

subsection \<open>C8: what the validator accepts and reports\<close>

text \<open>
  C8. \<open>validateGraphState\<close> answers \<open>valid\<close> exactly when no two nodes share an id, no
  two edges share an id, and the source and the target of every edge are node ids;
  \<open>valid\<close> holds exactly when the list of errors is empty. The loops never stop early:
  the number of messages is the number of nodes that repeat an earlier node id, plus the
  number of edges that repeat an earlier edge id, plus the number of edges with a missing
  source, plus the number of edges with a missing target. The function returns its
  result only; the state is an argument that it reads.
\<close>

theorem validateGraphState_correct:
  "(valid (validateGraphState S) \<longleftrightarrow>
      distinct (map node_id (nodes S)) \<and> distinct (map edge_id (edges S))
      \<and> (\<forall>e \<in> set (edges S).
            source e \<in> set (map node_id (nodes S)) \<and> target e \<in> set (map node_id (nodes S))))
   \<and> (valid (validateGraphState S) \<longleftrightarrow> errors (validateGraphState S) = [])
   \<and> length (errors (validateGraphState S)) =
       (length (nodes S) - card (set (map node_id (nodes S))))
       + (length (edges S) - card (set (map edge_id (edges S))))
       + length (filter (\<lambda>e. source e \<notin> set (map node_id (nodes S))) (edges S))
       + length (filter (\<lambda>e. target e \<notin> set (map node_id (nodes S))) (edges S))"
proof (intro conjI)
  show "valid (validateGraphState S) \<longleftrightarrow> errors (validateGraphState S) = []"
    by (rule validate_valid)
next
  have "errors (validateGraphState S) = [] \<longleftrightarrow>
      distinct (map node_id (nodes S)) \<and> distinct (map edge_id (edges S))
      \<and> (\<forall>e \<in> set (edges S).
            source e \<in> set (map node_id (nodes S)) \<and> target e \<in> set (map node_id (nodes S)))"
    unfolding validate_errors append_is_Nil_conv map_is_Nil_conv dupKeys_Nil_iff
      concat_refErrors_Nil_iff
    by simp
  then show "valid (validateGraphState S) \<longleftrightarrow>
      distinct (map node_id (nodes S)) \<and> distinct (map edge_id (edges S))
      \<and> (\<forall>e \<in> set (edges S).
            source e \<in> set (map node_id (nodes S)) \<and> target e \<in> set (map node_id (nodes S)))"
    by (simp only: validate_valid)
next
  show "length (errors (validateGraphState S)) =
       (length (nodes S) - card (set (map node_id (nodes S))))
       + (length (edges S) - card (set (map edge_id (edges S))))
       + length (filter (\<lambda>e. source e \<notin> set (map node_id (nodes S))) (edges S))
       + length (filter (\<lambda>e. target e \<notin> set (map node_id (nodes S))) (edges S))"
    unfolding validate_errors
    by (simp add: dupKeys_count refErrors_count del: set_map)
qed

text \<open>
  The theorem at a valid state (nodes \<open>a\<close>, \<open>b\<close>, edge \<open>e1\<close> from \<open>a\<close> to \<open>b\<close>), beside
  the three messages for a state with a repeated node id, a repeated edge id and a
  missing target.
\<close>

theorem validateGraphState_correct_witness:
  "validateGraphState
     (exState [exNode ''a'' ''A'', exNode ''b'' ''B'', exNode ''a'' ''A2'']
        [exEdge ''e1'' ''a'' ''b'', exEdge ''e1'' ''b'' ''zzz''])
   = \<lparr> valid = False,
       errors = [''Duplicate node ID: a'', ''Duplicate edge ID: e1'',
                 ''Edge e1 references non-existent target node: zzz''] \<rparr>
   \<and> valid (validateGraphState
        (exState [exNode ''a'' ''A'', exNode ''b'' ''B''] [exEdge ''e1'' ''a'' ''b'']))
   \<and> distinct (map node_id (nodes
        (exState [exNode ''a'' ''A'', exNode ''b'' ''B''] [exEdge ''e1'' ''a'' ''b''])))"
  using validateGraphState_correct
    [of "exState [exNode ''a'' ''A'', exNode ''b'' ''B''] [exEdge ''e1'' ''a'' ''b'']"]
  by (simp add: validateGraphState_def exState_def exNode_def exEdge_def Let_def)

section \<open>Properties of the layout assignment\<close>

subsection \<open>Auxiliary lemmas\<close>

lemma autoLayoutNodes_length: "length (autoLayoutNodes fadd fmul ns startX startY) = length ns"
  by (simp add: autoLayoutNodes_def)

lemma autoLayoutNodes_nth:
  "i < length ns \<Longrightarrow>
     autoLayoutNodes fadd fmul ns startX startY ! i = layoutNode fadd fmul startX startY i (ns ! i)"
  by (simp add: autoLayoutNodes_def)

lemma position_zero_iff:
  "position n = \<lparr> pos_x = 0, pos_y = 0 \<rparr> \<longleftrightarrow> pos_x (position n) = 0 \<and> pos_y (position n) = 0"
  by (cases "position n") auto

lemma round53_eval:
  assumes "2 ^ k \<le> \<bar>x\<bar>" and "\<bar>x\<bar> < 2 ^ Suc k"
  shows "round53 x = 2 powr (real k - 52) * of_int (roundHalfEven (x / 2 powr (real k - 52)))"
proof -
  from assms(1) have pos: "0 < \<bar>x\<bar>"
    by (meson less_le_trans zero_less_numeral zero_less_power)
  then have nz: "x \<noteq> 0" by simp
  have p1: "(2::real) powr (of_int (int k)) = 2 ^ k"
    by (simp add: powr_realpow)
  have "(2::real) powr (of_int (int k + 1)) = 2 powr (real (Suc k))"
    by (simp add: add.commute)
  also have "\<dots> = 2 ^ Suc k"
    by (rule powr_realpow) simp
  finally have p2: "(2::real) powr (of_int (int k + 1)) = 2 ^ Suc k" .
  have "(2::real) powr (of_int (int k)) \<le> \<bar>x\<bar> \<and> \<bar>x\<bar> < 2 powr (of_int (int k + 1))"
    unfolding p1 p2 using assms by simp
  then have "\<lfloor>log 2 \<bar>x\<bar>\<rfloor> = int k"
    using floor_log_eq_powr_iff [of "\<bar>x\<bar>" 2 "int k"] pos by simp
  with nz show ?thesis by (simp add: round53_def Let_def)
qed

lemma round53_250: "round53 250 = 250"
proof -
  have "round53 250 = 2 powr (real 7 - 52) * of_int (roundHalfEven (250 / 2 powr (real 7 - 52)))"
    by (rule round53_eval) simp_all
  also have "(2::real) powr (real 7 - 52) = 1 / 2 ^ 45"
    by (simp add: powr_minus_divide)
  finally show ?thesis by (simp add: roundHalfEven_def Let_def)
qed

lemma round53_big: "round53 100000000000000250 = 100000000000000256"
proof -
  have "round53 100000000000000250 =
      2 powr (real 56 - 52) * of_int (roundHalfEven (100000000000000250 / 2 powr (real 56 - 52)))"
    by (rule round53_eval) simp_all
  also have "(2::real) powr (real 56 - 52) = 16"
    by simp
  finally show ?thesis by (simp add: roundHalfEven_def Let_def)
qed

lemma round53_small:
  "round53 0 = 0 \<and> round53 100 = 100 \<and> round53 150 = 150 \<and> round53 350 = 350"
proof -
  have a: "round53 100 = 2 powr (real 6 - 52) * of_int (roundHalfEven (100 / 2 powr (real 6 - 52)))"
    by (rule round53_eval) simp_all
  have b: "round53 150 = 2 powr (real 7 - 52) * of_int (roundHalfEven (150 / 2 powr (real 7 - 52)))"
    by (rule round53_eval) simp_all
  have c: "round53 350 = 2 powr (real 8 - 52) * of_int (roundHalfEven (350 / 2 powr (real 8 - 52)))"
    by (rule round53_eval) simp_all
  have p6: "(2::real) powr (real 6 - 52) = 1 / 2 ^ 46" by (simp add: powr_minus_divide)
  have p7: "(2::real) powr (real 7 - 52) = 1 / 2 ^ 45" by (simp add: powr_minus_divide)
  have p8: "(2::real) powr (real 8 - 52) = 1 / 2 ^ 44" by (simp add: powr_minus_divide)
  have "round53 0 = 0" by (simp add: round53_def)
  moreover have "round53 100 = 100" unfolding a p6 by (simp add: roundHalfEven_def Let_def)
  moreover have "round53 150 = 150" unfolding b p7 by (simp add: roundHalfEven_def Let_def)
  moreover have "round53 350 = 350" unfolding c p8 by (simp add: roundHalfEven_def Let_def)
  ultimately show ?thesis by (intro conjI)
qed

subsection \<open>C7: the grid\<close>

text \<open>
  C7 (amended). For every node list and every \<open>startX\<close>, \<open>startY\<close>, whatever the
  addition \<open>fadd\<close> and the multiplication \<open>fmul\<close> of numbers are, \<open>autoLayoutNodes\<close>
  returns a list of the same length in which the node at index \<open>i\<close> is: when its
  position is exactly \<open>(0, 0)\<close>, the same node moved to the position with \<open>x\<close> the sum
  of \<open>startX\<close> and the product of \<open>i mod 4\<close> and 250, and \<open>y\<close> the sum of \<open>startY\<close> and
  the product of \<open>i div 4\<close> and 150, both by these operations; otherwise the node itself,
  unchanged. With the operations of doubles the sums are rounded.
\<close>

theorem autoLayoutNodes_grid:
  "length (autoLayoutNodes fadd fmul ns startX startY) = length ns
   \<and> (\<forall>i < length ns.
        autoLayoutNodes fadd fmul ns startX startY ! i =
          (if position (ns ! i) = \<lparr> pos_x = 0, pos_y = 0 \<rparr>
           then (ns ! i)\<lparr> position :=
                  \<lparr> pos_x = fadd startX (fmul (real (i mod 4)) 250),
                    pos_y = fadd startY (fmul (real (i div 4)) 150) \<rparr> \<rparr>
           else ns ! i))"
  by (simp add: autoLayoutNodes_length autoLayoutNodes_nth layoutNode_def position_zero_iff
      COLS_def SPACING_X_def SPACING_Y_def Let_def)

text \<open>
  C7 as stated, with the sum and the product of real numbers, fails on the arithmetic of
  doubles: with \<open>startX\<close> = 100000000000000000 the node at index 1 gets
  \<open>x\<close> = 100000000000000256, the double nearest to the exact sum 100000000000000250.
\<close>

theorem autoLayoutNodes_exact_sum_counterexample:
  "pos_x (position (autoLayoutNodes doubleAdd doubleMul
      [exNode ''n0'' ''N0'', exNode ''n1'' ''N1''] 100000000000000000 100 ! 1))
     = 100000000000000256
   \<and> pos_x (position (autoLayoutNodes doubleAdd doubleMul
      [exNode ''n0'' ''N0'', exNode ''n1'' ''N1''] 100000000000000000 100 ! 1))
     \<noteq> 100000000000000000 + real (1 mod 4) * 250"
proof -
  have "pos_x (position (autoLayoutNodes doubleAdd doubleMul
      [exNode ''n0'' ''N0'', exNode ''n1'' ''N1''] 100000000000000000 100 ! 1))
     = doubleAdd 100000000000000000 (doubleMul 1 250)"
    by (simp add: autoLayoutNodes_def layoutNode_def exNode_def COLS_def SPACING_X_def Let_def)
  also have "\<dots> = 100000000000000256"
    by (simp add: doubleAdd_def doubleMul_def round53_250 round53_big)
  finally show ?thesis by simp
qed

text \<open>
  The theorem with the arithmetic of doubles, at indices 5 and 3 of a list of six nodes,
  all at the origin except the node at index 3, with \<open>startX = startY = 100\<close>: node 5
  goes to column 1 of row 1 (both sums are exact there), node 3 stays where it is.
\<close>

theorem autoLayoutNodes_grid_witness:
  "(5::nat) < length [exNode ''n0'' ''N0'', exNode ''n1'' ''N1'', exNode ''n2'' ''N2'',
        (exNode ''n3'' ''N3'')\<lparr> position := \<lparr> pos_x = 40, pos_y = 0 \<rparr> \<rparr>,
        exNode ''n4'' ''N4'', exNode ''n5'' ''N5'']
   \<and> autoLayoutNodes doubleAdd doubleMul
        [exNode ''n0'' ''N0'', exNode ''n1'' ''N1'', exNode ''n2'' ''N2'',
        (exNode ''n3'' ''N3'')\<lparr> position := \<lparr> pos_x = 40, pos_y = 0 \<rparr> \<rparr>,
        exNode ''n4'' ''N4'', exNode ''n5'' ''N5''] 100 100 ! 5
     = (exNode ''n5'' ''N5'')\<lparr> position := \<lparr> pos_x = 350, pos_y = 250 \<rparr> \<rparr>
   \<and> autoLayoutNodes doubleAdd doubleMul
        [exNode ''n0'' ''N0'', exNode ''n1'' ''N1'', exNode ''n2'' ''N2'',
        (exNode ''n3'' ''N3'')\<lparr> position := \<lparr> pos_x = 40, pos_y = 0 \<rparr> \<rparr>,
        exNode ''n4'' ''N4'', exNode ''n5'' ''N5''] 100 100 ! 3
     = (exNode ''n3'' ''N3'')\<lparr> position := \<lparr> pos_x = 40, pos_y = 0 \<rparr> \<rparr>"
proof -
  let ?ns = "[exNode ''n0'' ''N0'', exNode ''n1'' ''N1'', exNode ''n2'' ''N2'',
        (exNode ''n3'' ''N3'')\<lparr> position := \<lparr> pos_x = 40, pos_y = 0 \<rparr> \<rparr>,
        exNode ''n4'' ''N4'', exNode ''n5'' ''N5'']"
  have all: "\<forall>i < length ?ns.
        autoLayoutNodes doubleAdd doubleMul ?ns 100 100 ! i =
          (if position (?ns ! i) = \<lparr> pos_x = 0, pos_y = 0 \<rparr>
           then (?ns ! i)\<lparr> position :=
                  \<lparr> pos_x = doubleAdd 100 (doubleMul (real (i mod 4)) 250),
                    pos_y = doubleAdd 100 (doubleMul (real (i div 4)) 150) \<rparr> \<rparr>
           else ?ns ! i)"
    using autoLayoutNodes_grid [of doubleAdd doubleMul ?ns 100 100] by (rule conjunct2)
  have h5: "(5::nat) < length ?ns" and h3: "(3::nat) < length ?ns" by simp_all
  have sums: "doubleAdd 100 (doubleMul 1 250) = 350 \<and> doubleAdd 100 (doubleMul 1 150) = 250"
    using round53_small by (simp add: doubleAdd_def doubleMul_def round53_250)
  from all h5 have "autoLayoutNodes doubleAdd doubleMul ?ns 100 100 ! 5 =
          (if position (?ns ! 5) = \<lparr> pos_x = 0, pos_y = 0 \<rparr>
           then (?ns ! 5)\<lparr> position :=
                  \<lparr> pos_x = doubleAdd 100 (doubleMul (real (5 mod 4)) 250),
                    pos_y = doubleAdd 100 (doubleMul (real (5 div 4)) 150) \<rparr> \<rparr>
           else ?ns ! 5)"
    by blast
  then have v5: "autoLayoutNodes doubleAdd doubleMul ?ns 100 100 ! 5
      = (exNode ''n5'' ''N5'')\<lparr> position := \<lparr> pos_x = 350, pos_y = 250 \<rparr> \<rparr>"
    using sums by (simp add: exNode_def)
  from all h3 have "autoLayoutNodes doubleAdd doubleMul ?ns 100 100 ! 3 =
          (if position (?ns ! 3) = \<lparr> pos_x = 0, pos_y = 0 \<rparr>
           then (?ns ! 3)\<lparr> position :=
                  \<lparr> pos_x = doubleAdd 100 (doubleMul (real (3 mod 4)) 250),
                    pos_y = doubleAdd 100 (doubleMul (real (3 div 4)) 150) \<rparr> \<rparr>
           else ?ns ! 3)"
    by blast
  then have v3: "autoLayoutNodes doubleAdd doubleMul ?ns 100 100 ! 3
      = (exNode ''n3'' ''N3'')\<lparr> position := \<lparr> pos_x = 40, pos_y = 0 \<rparr> \<rparr>"
    by (simp add: exNode_def)
  from h5 v5 v3 show ?thesis by (intro conjI)
qed

section \<open>Properties of the change summarizer\<close>

subsection \<open>Auxiliary lemmas\<close>

lemma pushIf_eq:
  "pushIf f sentence parts = parts @ (if optList f = [] then [] else [sentence (optList f)])"
  by (cases f) (auto simp: pushIf_def optList_def)

lemma summaryParts_eq:
  "summaryParts arrow d =
     (if optList (addNodes d) = [] then [] else [addedNodesSentence (optList (addNodes d))])
     @ (if optList (updateNodes d) = [] then [] else [updatedNodesSentence (optList (updateNodes d))])
     @ (if optList (removeNodeIds d) = [] then [] else [removedNodesSentence (optList (removeNodeIds d))])
     @ (if optList (addEdges d) = [] then [] else [addedEdgesSentence arrow (optList (addEdges d))])
     @ (if optList (removeEdgeIds d) = [] then [] else [removedEdgesSentence (optList (removeEdgeIds d))])"
  by (simp add: summaryParts_def Let_def pushIf_eq)

lemma join_Cons: "join sep (p # ps) = p @ (if ps = [] then [] else sep @ join sep ps)"
  by (cases ps) simp_all

lemma join_butlast_last:
  "ps \<noteq> [] \<Longrightarrow> join sep ps = concat (map (\<lambda>p. p @ sep) (butlast ps)) @ last ps"
  by (induction sep ps rule: join.induct) simp_all

lemma showNodeKind_case:
  "showNodeKind k =
     (case k of Service \<Rightarrow> ''service'' | Class \<Rightarrow> ''class'' | Module \<Rightarrow> ''module''
      | Api \<Rightarrow> ''api'' | Queue \<Rightarrow> ''queue'' | Db \<Rightarrow> ''db'')"
  by (cases k) simp_all

lemma showEdgeKind_case:
  "showEdgeKind k =
     (case k of Calls \<Rightarrow> ''calls'' | DependsOn \<Rightarrow> ''depends_on'' | Publishes \<Rightarrow> ''publishes''
      | Consumes \<Rightarrow> ''consumes'' | Queries \<Rightarrow> ''queries'')"
  by (cases k) simp_all

lemma showNat_small: "n < 10 \<Longrightarrow> showNat n = [''0123456789'' ! n]"
  by (simp add: showNat.simps)

lemma showNat_large:
  "\<not> n < 10 \<Longrightarrow> showNat n = showNat (n div 10) @ [''0123456789'' ! (n mod 10)]"
  by (subst showNat.simps) simp

lemma digit_cases:
  assumes "k < 10"
  shows "k = 0 \<or> k = 1 \<or> k = 2 \<or> k = 3 \<or> k = 4 \<or> k = 5 \<or> k = 6 \<or> k = 7 \<or> k = 8 \<or> k = (9::nat)"
  using assms by arith

lemma digit_value: "k < 10 \<Longrightarrow> of_char (''0123456789'' ! k) - 48 = k"
  using digit_cases [of k] by auto

lemma digit_member: "k < 10 \<Longrightarrow> ''0123456789'' ! k \<in> set ''0123456789''"
  by (rule nth_mem) simp

lemma digit_zero: "k < 10 \<Longrightarrow> ''0123456789'' ! k = CHR ''0'' \<Longrightarrow> k = 0"
  using digit_cases [of k] by auto

lemma showNat_nonempty: "showNat n \<noteq> []"
  by (cases "n < 10") (simp_all add: showNat_small showNat_large)

lemma showNat_digits: "set (showNat n) \<subseteq> set ''0123456789''"
proof (induction n rule: showNat.induct)
  case (1 n)
  show ?case
  proof (cases "n < 10")
    case True
    then show ?thesis using digit_member [of n] by (simp only: showNat_small) simp
  next
    case False
    have "n mod 10 < 10" by simp
    then have mem: "''0123456789'' ! (n mod 10) \<in> set ''0123456789''" by (rule digit_member)
    from False have eq: "showNat n = showNat (n div 10) @ [''0123456789'' ! (n mod 10)]"
      by (rule showNat_large)
    from False "1.IH" have "set (showNat (n div 10)) \<subseteq> set ''0123456789''" by simp
    with mem show ?thesis unfolding eq by simp
  qed
qed

lemma showNat_value: "foldl (\<lambda>a c. 10 * a + (of_char c - 48)) 0 (showNat n) = n"
proof (induction n rule: showNat.induct)
  case (1 n)
  show ?case
  proof (cases "n < 10")
    case True
    then show ?thesis by (simp add: showNat_small digit_value)
  next
    case False
    have "n mod 10 < 10" by simp
    then have "of_char (''0123456789'' ! (n mod 10)) - 48 = n mod 10" by (rule digit_value)
    with False "1.IH" show ?thesis by (simp add: showNat_large)
  qed
qed

lemma showNat_hd_zero: "hd (showNat n) = CHR ''0'' \<Longrightarrow> n = 0"
proof (induction n rule: showNat.induct)
  case (1 n)
  show ?case
  proof (cases "n < 10")
    case True
    with "1.prems" show ?thesis by (simp add: showNat_small digit_zero)
  next
    case False
    with "1.prems" have "hd (showNat (n div 10)) = CHR ''0''"
      by (simp add: showNat_large showNat_nonempty)
    with False "1.IH" have "n div 10 = 0" by simp
    with False show ?thesis by simp
  qed
qed

lemma showNat_no_leading_zero: "1 < length (showNat n) \<Longrightarrow> hd (showNat n) \<noteq> CHR ''0''"
proof
  assume len: "1 < length (showNat n)" and "hd (showNat n) = CHR ''0''"
  then have "n = 0" by (simp add: showNat_hd_zero)
  with len show False by (simp add: showNat_small)
qed

lemma showNat_1: "showNat (Suc 0) = ''1''"
  by (simp add: showNat.simps)

lemma scenario_F_sentence:
  "label n = ''X'' \<Longrightarrow> node_kind n = Service \<Longrightarrow>
     addedNodesSentence [n] = ''Added 1 node(s): \"X\" (service)''"
  by (simp add: addedNodesSentence_def showNat_1)

lemma scenario_F_sublist:
  assumes "addNodes d = Some [n]" "label n = ''X''" "node_kind n = Service"
  shows "sublist ''Added 1 node(s): \"X\" (service)'' (generateChangeSummary arrow d)"
proof -
  from assms(1) obtain rest where parts:
    "summaryParts arrow d = addedNodesSentence [n] # rest"
    by (simp add: summaryParts_eq optList_def)
  have "generateChangeSummary arrow d = join ''. '' (addedNodesSentence [n] # rest) @ ''.''"
    by (simp add: generateChangeSummary_def parts)
  also have "\<dots> = ''Added 1 node(s): \"X\" (service)''
      @ ((if rest = [] then [] else ''. '' @ join ''. '' rest) @ ''.'')"
    unfolding join_Cons scenario_F_sentence [OF assms(2) assms(3)] by simp
  finally have "prefix ''Added 1 node(s): \"X\" (service)'' (generateChangeSummary arrow d)"
    by (simp only: prefixI)
  then show ?thesis by (rule prefix_imp_sublist)
qed

lemma addedNodesSentence_text:
  "ns \<noteq> [] \<Longrightarrow>
     addedNodesSentence ns =
       ''Added '' @ showNat (length ns) @ '' node(s): ''
       @ concat (map (\<lambda>p. p @ '', '')
           (butlast (map (\<lambda>n. ''\"'' @ label n @ ''\" (''
              @ (case node_kind n of Service \<Rightarrow> ''service'' | Class \<Rightarrow> ''class''
                 | Module \<Rightarrow> ''module'' | Api \<Rightarrow> ''api'' | Queue \<Rightarrow> ''queue'' | Db \<Rightarrow> ''db'')
              @ '')'') ns)))
       @ last (map (\<lambda>n. ''\"'' @ label n @ ''\" (''
              @ (case node_kind n of Service \<Rightarrow> ''service'' | Class \<Rightarrow> ''class''
                 | Module \<Rightarrow> ''module'' | Api \<Rightarrow> ''api'' | Queue \<Rightarrow> ''queue'' | Db \<Rightarrow> ''db'')
              @ '')'') ns)"
  by (simp only: addedNodesSentence_def showNodeKind_case)
    (simp add: join_butlast_last)

lemma updatedNodesSentence_text:
  "us \<noteq> [] \<Longrightarrow>
     updatedNodesSentence us =
       ''Updated '' @ showNat (length us) @ '' node(s): ''
       @ concat (map (\<lambda>p. p @ '', '') (butlast (map upd_id us))) @ last (map upd_id us)"
  by (simp add: updatedNodesSentence_def join_butlast_last)

lemma removedNodesSentence_text:
  "rs \<noteq> [] \<Longrightarrow>
     removedNodesSentence rs =
       ''Removed '' @ showNat (length rs) @ '' node(s): ''
       @ concat (map (\<lambda>p. p @ '', '') (butlast rs)) @ last rs"
  by (simp add: removedNodesSentence_def join_butlast_last)

lemma addedEdgesSentence_text:
  "es \<noteq> [] \<Longrightarrow>
     addedEdgesSentence arrow es =
       ''Added '' @ showNat (length es) @ '' edge(s): ''
       @ concat (map (\<lambda>p. p @ '', '')
           (butlast (map (\<lambda>e. source e @ arrow @ target e @ '' (''
              @ (case edge_kind e of Calls \<Rightarrow> ''calls'' | DependsOn \<Rightarrow> ''depends_on''
                 | Publishes \<Rightarrow> ''publishes'' | Consumes \<Rightarrow> ''consumes''
                 | Queries \<Rightarrow> ''queries'')
              @ '')'') es)))
       @ last (map (\<lambda>e. source e @ arrow @ target e @ '' (''
              @ (case edge_kind e of Calls \<Rightarrow> ''calls'' | DependsOn \<Rightarrow> ''depends_on''
                 | Publishes \<Rightarrow> ''publishes'' | Consumes \<Rightarrow> ''consumes''
                 | Queries \<Rightarrow> ''queries'')
              @ '')'') es)"
  by (simp only: addedEdgesSentence_def showEdgeKind_case)
    (simp add: join_butlast_last)

lemma removedEdgesSentence_text:
  "rs \<noteq> [] \<Longrightarrow>
     removedEdgesSentence rs =
       ''Removed '' @ showNat (length rs) @ '' edge(s): ''
       @ concat (map (\<lambda>p. p @ '', '') (butlast rs)) @ last rs"
  by (simp add: removedEdgesSentence_def join_butlast_last)

lemma generateChangeSummary_parts:
  "generateChangeSummary arrow d =
      (if summaryParts arrow d = [] then ''No changes were made to the graph.''
       else concat (map (\<lambda>p. p @ ''. '') (butlast (summaryParts arrow d)))
            @ last (summaryParts arrow d) @ ''.'')"
  by (simp add: generateChangeSummary_def join_butlast_last Let_def)

lemma summaryParts_text:
  "summaryParts arrow d =
     (if (optList (addNodes d)) = [] then []
             else [''Added '' @ showNat (length (optList (addNodes d))) @ '' node(s): ''
               @ concat (map (\<lambda>p. p @ '', '')
                   (butlast (map (\<lambda>n. ''\"'' @ label n @ ''\" (''
                      @ (case node_kind n of Service \<Rightarrow> ''service'' | Class \<Rightarrow> ''class''
                         | Module \<Rightarrow> ''module'' | Api \<Rightarrow> ''api'' | Queue \<Rightarrow> ''queue''
                         | Db \<Rightarrow> ''db'')
                      @ '')'') (optList (addNodes d)))))
               @ last (map (\<lambda>n. ''\"'' @ label n @ ''\" (''
                      @ (case node_kind n of Service \<Rightarrow> ''service'' | Class \<Rightarrow> ''class''
                         | Module \<Rightarrow> ''module'' | Api \<Rightarrow> ''api'' | Queue \<Rightarrow> ''queue''
                         | Db \<Rightarrow> ''db'')
                      @ '')'') (optList (addNodes d)))])
            @ (if (optList (updateNodes d)) = [] then []
               else [''Updated '' @ showNat (length (optList (updateNodes d))) @ '' node(s): ''
                 @ concat (map (\<lambda>p. p @ '', '') (butlast (map upd_id (optList (updateNodes d)))))
                 @ last (map upd_id (optList (updateNodes d)))])
            @ (if (optList (removeNodeIds d)) = [] then []
               else [''Removed '' @ showNat (length (optList (removeNodeIds d))) @ '' node(s): ''
                 @ concat (map (\<lambda>p. p @ '', '') (butlast (optList (removeNodeIds d)))) @ last (optList (removeNodeIds d))])
            @ (if (optList (addEdges d)) = [] then []
               else [''Added '' @ showNat (length (optList (addEdges d))) @ '' edge(s): ''
                 @ concat (map (\<lambda>p. p @ '', '')
                     (butlast (map (\<lambda>e. source e @ arrow @ target e @ '' (''
                        @ (case edge_kind e of Calls \<Rightarrow> ''calls'' | DependsOn \<Rightarrow> ''depends_on''
                           | Publishes \<Rightarrow> ''publishes'' | Consumes \<Rightarrow> ''consumes''
                           | Queries \<Rightarrow> ''queries'')
                        @ '')'') (optList (addEdges d)))))
                 @ last (map (\<lambda>e. source e @ arrow @ target e @ '' (''
                        @ (case edge_kind e of Calls \<Rightarrow> ''calls'' | DependsOn \<Rightarrow> ''depends_on''
                           | Publishes \<Rightarrow> ''publishes'' | Consumes \<Rightarrow> ''consumes''
                           | Queries \<Rightarrow> ''queries'')
                        @ '')'') (optList (addEdges d)))])
            @ (if (optList (removeEdgeIds d)) = [] then []
               else [''Removed '' @ showNat (length (optList (removeEdgeIds d))) @ '' edge(s): ''
                 @ concat (map (\<lambda>p. p @ '', '') (butlast (optList (removeEdgeIds d)))) @ last (optList (removeEdgeIds d))])"
  unfolding summaryParts_eq
  by (simp add: addedNodesSentence_text updatedNodesSentence_text removedNodesSentence_text
      addedEdgesSentence_text removedEdgesSentence_text cong: if_cong)

subsection \<open>C9: the sentences of the summary\<close>

text \<open>
  C9. The summary, written with list functions of the library only. With \<open>an\<close>, \<open>un\<close>,
  \<open>rn\<close>, \<open>ae\<close>, \<open>re\<close> the arrays of the five operation keys (empty when the key is
  absent), the parts \<open>ps\<close> are one sentence for each non-empty array, in the order added
  nodes, updated nodes, removed nodes, added edges, removed edges. A sentence is the name
  of the operation, the count text of the length of the array, and the entries, each but
  the last followed by a comma and a space. When there is no part the summary is the
  fixed sentence \<open>No changes were made to the graph.\<close>; otherwise it is every part but
  the last followed by a full stop and a space, then the last part and a full stop. The
  count text of \<open>k\<close> is the decimal numeral of \<open>k\<close>: it is not empty, it consists of
  digits, it has no leading zero unless it is one digit long, and its value, read digit
  by digit, is \<open>k\<close>. For a delta whose \<^verbatim>\<open>addNodes\<close> is one node with label \<open>X\<close> and kind
  service, the summary contains \<^verbatim>\<open>Added 1 node(s): "X" (service)\<close>.
\<close>

theorem generateChangeSummary_sentences:
  "generateChangeSummary arrow d =
     (let an = (case addNodes d of None \<Rightarrow> [] | Some xs \<Rightarrow> xs);
          un = (case updateNodes d of None \<Rightarrow> [] | Some xs \<Rightarrow> xs);
          rn = (case removeNodeIds d of None \<Rightarrow> [] | Some xs \<Rightarrow> xs);
          ae = (case addEdges d of None \<Rightarrow> [] | Some xs \<Rightarrow> xs);
          re = (case removeEdgeIds d of None \<Rightarrow> [] | Some xs \<Rightarrow> xs);
          ps =
            (if an = [] then []
             else [''Added '' @ showNat (length an) @ '' node(s): ''
               @ concat (map (\<lambda>p. p @ '', '')
                   (butlast (map (\<lambda>n. ''\"'' @ label n @ ''\" (''
                      @ (case node_kind n of Service \<Rightarrow> ''service'' | Class \<Rightarrow> ''class''
                         | Module \<Rightarrow> ''module'' | Api \<Rightarrow> ''api'' | Queue \<Rightarrow> ''queue''
                         | Db \<Rightarrow> ''db'')
                      @ '')'') an)))
               @ last (map (\<lambda>n. ''\"'' @ label n @ ''\" (''
                      @ (case node_kind n of Service \<Rightarrow> ''service'' | Class \<Rightarrow> ''class''
                         | Module \<Rightarrow> ''module'' | Api \<Rightarrow> ''api'' | Queue \<Rightarrow> ''queue''
                         | Db \<Rightarrow> ''db'')
                      @ '')'') an)])
            @ (if un = [] then []
               else [''Updated '' @ showNat (length un) @ '' node(s): ''
                 @ concat (map (\<lambda>p. p @ '', '') (butlast (map upd_id un)))
                 @ last (map upd_id un)])
            @ (if rn = [] then []
               else [''Removed '' @ showNat (length rn) @ '' node(s): ''
                 @ concat (map (\<lambda>p. p @ '', '') (butlast rn)) @ last rn])
            @ (if ae = [] then []
               else [''Added '' @ showNat (length ae) @ '' edge(s): ''
                 @ concat (map (\<lambda>p. p @ '', '')
                     (butlast (map (\<lambda>e. source e @ arrow @ target e @ '' (''
                        @ (case edge_kind e of Calls \<Rightarrow> ''calls'' | DependsOn \<Rightarrow> ''depends_on''
                           | Publishes \<Rightarrow> ''publishes'' | Consumes \<Rightarrow> ''consumes''
                           | Queries \<Rightarrow> ''queries'')
                        @ '')'') ae)))
                 @ last (map (\<lambda>e. source e @ arrow @ target e @ '' (''
                        @ (case edge_kind e of Calls \<Rightarrow> ''calls'' | DependsOn \<Rightarrow> ''depends_on''
                           | Publishes \<Rightarrow> ''publishes'' | Consumes \<Rightarrow> ''consumes''
                           | Queries \<Rightarrow> ''queries'')
                        @ '')'') ae)])
            @ (if re = [] then []
               else [''Removed '' @ showNat (length re) @ '' edge(s): ''
                 @ concat (map (\<lambda>p. p @ '', '') (butlast re)) @ last re])
      in if ps = [] then ''No changes were made to the graph.''
         else concat (map (\<lambda>p. p @ ''. '') (butlast ps)) @ last ps @ ''.'')
   \<and> showNat k \<noteq> []
   \<and> set (showNat k) \<subseteq> set ''0123456789''
   \<and> (1 < length (showNat k) \<longrightarrow> hd (showNat k) \<noteq> CHR ''0'')
   \<and> foldl (\<lambda>a c. 10 * a + (of_char c - 48)) 0 (showNat k) = k
   \<and> (addNodes d = Some [n] \<and> label n = ''X'' \<and> node_kind n = Service \<longrightarrow>
        sublist ''Added 1 node(s): \"X\" (service)'' (generateChangeSummary arrow d))"
proof (intro conjI impI)
  show "showNat k \<noteq> []" by (rule showNat_nonempty)
  show "set (showNat k) \<subseteq> set ''0123456789''" by (rule showNat_digits)
  show "hd (showNat k) \<noteq> CHR ''0''" if "1 < length (showNat k)"
    using that by (rule showNat_no_leading_zero)
  show "foldl (\<lambda>a c. 10 * a + (of_char c - 48)) 0 (showNat k) = k" by (rule showNat_value)
  show "sublist ''Added 1 node(s): \"X\" (service)'' (generateChangeSummary arrow d)"
    if "addNodes d = Some [n] \<and> label n = ''X'' \<and> node_kind n = Service"
    using that scenario_F_sublist [of d n arrow] by blast
qed (simp only: Let_def optList_def [symmetric] generateChangeSummary_parts summaryParts_text)

text \<open>
  The theorem at a delta that adds the node \<open>X\<close>, removes the nodes \<open>a\<close> and \<open>b\<close> and
  has an empty \<^verbatim>\<open>addEdges\<close> array, beside the summary of the empty delta and the count
  text of 12.
\<close>

theorem generateChangeSummary_sentences_witness:
  "generateChangeSummary ''->''
     (emptyDelta\<lparr> addNodes := Some [exNode ''x'' ''X''],
                  removeNodeIds := Some [''a'', ''b''],
                  addEdges := Some [] \<rparr>)
   = ''Added 1 node(s): \"X\" (service). Removed 2 node(s): a, b.''
   \<and> sublist ''Added 1 node(s): \"X\" (service)''
       (generateChangeSummary ''->''
          (emptyDelta\<lparr> addNodes := Some [exNode ''x'' ''X''],
                       removeNodeIds := Some [''a'', ''b''],
                       addEdges := Some [] \<rparr>))
   \<and> generateChangeSummary ''->'' emptyDelta = ''No changes were made to the graph.''
   \<and> 1 < length (showNat 12) \<and> showNat 12 = ''12''"
proof -
  let ?d = "emptyDelta\<lparr> addNodes := Some [exNode ''x'' ''X''],
                  removeNodeIds := Some [''a'', ''b''],
                  addEdges := Some [] \<rparr>"
  have pre: "addNodes ?d = Some [exNode ''x'' ''X''] \<and> label (exNode ''x'' ''X'') = ''X''
      \<and> node_kind (exNode ''x'' ''X'') = Service"
    by (simp add: emptyDelta_def exNode_def)
  have sub: "sublist ''Added 1 node(s): \"X\" (service)'' (generateChangeSummary ''->'' ?d)"
    using generateChangeSummary_sentences [of "''->''" ?d _ "exNode ''x'' ''X''"] pre by blast
  have two: "showNat (Suc (Suc 0)) = ''2''" by (simp add: showNat.simps)
  have v: "generateChangeSummary ''->'' ?d
      = ''Added 1 node(s): \"X\" (service). Removed 2 node(s): a, b.''"
    by (simp add: generateChangeSummary_def summaryParts_def pushIf_def emptyDelta_def
        exNode_def addedNodesSentence_def removedNodesSentence_def showNat_1 two Let_def)
  have e: "generateChangeSummary ''->'' emptyDelta = ''No changes were made to the graph.''"
    by (simp add: generateChangeSummary_def summaryParts_def pushIf_def emptyDelta_def Let_def)
  have t: "showNat 12 = ''12''" by (simp add: showNat.simps)
  then have l: "1 < length (showNat 12)" by simp
  from v sub e l t show ?thesis by (intro conjI)
qed

section \<open>Properties of the delta parser\<close>

subsection \<open>Auxiliary lemmas\<close>

lemma greedyClose_None_iff: "greedyClose cs = None \<longleftrightarrow> CHR ''}'' \<notin> set cs"
  by (induction cs) (auto split: option.splits)

lemma greedyClose_SomeD:
  "greedyClose cs = Some m \<Longrightarrow>
     \<exists>post. cs = m @ post \<and> CHR ''}'' \<notin> set post \<and> m \<noteq> [] \<and> last m = CHR ''}''"
proof (induction cs arbitrary: m)
  case Nil
  then show ?case by simp
next
  case (Cons c cs)
  show ?case
  proof (cases "greedyClose cs")
    case None
    with Cons.prems have "c = CHR ''}''" and "m = [c]" by (auto split: if_splits)
    moreover from None have "CHR ''}'' \<notin> set cs" by (simp add: greedyClose_None_iff)
    ultimately show ?thesis by simp
  next
    case (Some m')
    with Cons.prems have m: "m = c # m'" by simp
    from Cons.IH [OF Some] obtain post where
      "cs = m' @ post" "CHR ''}'' \<notin> set post" "m' \<noteq> []" "last m' = CHR ''}''" by blast
    with m show ?thesis by simp
  qed
qed

lemma greedyClose_SomeI:
  "m \<noteq> [] \<Longrightarrow> last m = CHR ''}'' \<Longrightarrow> CHR ''}'' \<notin> set post \<Longrightarrow> greedyClose (m @ post) = Some m"
proof (induction m)
  case Nil
  then show ?case by simp
next
  case (Cons c m)
  show ?case
  proof (cases "m = []")
    case True
    with Cons.prems have "c = CHR ''}''" and "greedyClose post = None"
      by (simp_all add: greedyClose_None_iff)
    with True show ?thesis by simp
  next
    case False
    with Cons.prems have "greedyClose (m @ post) = Some m" by (intro Cons.IH) simp_all
    then show ?thesis by simp
  qed
qed

lemma jsonMatch_None_iff:
  "jsonMatch s = None \<longleftrightarrow> CHR ''}'' \<notin> set (dropWhile (\<lambda>c. c \<noteq> CHR ''{'') s)"
proof (induction s)
  case Nil
  then show ?case by simp
next
  case (Cons c cs)
  show ?case
  proof (cases "c = CHR ''{''")
    case False
    with Cons.IH show ?thesis by simp
  next
    case True
    show ?thesis
    proof (cases "greedyClose cs")
      case None
      then have no: "CHR ''}'' \<notin> set cs" by (simp add: greedyClose_None_iff)
      then have "CHR ''}'' \<notin> set (dropWhile (\<lambda>c. c \<noteq> CHR ''{'') cs)"
        using set_dropWhileD [of "CHR ''}''" "\<lambda>c. c \<noteq> CHR ''{''" cs] by blast
      with Cons.IH have "jsonMatch cs = None" by simp
      with True None no show ?thesis by simp
    next
      case (Some m)
      then have "CHR ''}'' \<in> set cs" using greedyClose_None_iff [of cs] by simp
      with True Some show ?thesis by simp
    qed
  qed
qed

lemma jsonMatch_SomeD:
  "jsonMatch s = Some m \<Longrightarrow>
     \<exists>pre body post. s = pre @ m @ post \<and> CHR ''{'' \<notin> set pre \<and> CHR ''}'' \<notin> set post
        \<and> m = CHR ''{'' # body \<and> body \<noteq> [] \<and> last body = CHR ''}''"
proof (induction s)
  case Nil
  then show ?case by simp
next
  case (Cons c cs)
  show ?case
  proof (cases "c = CHR ''{''")
    case False
    with Cons.prems have "jsonMatch cs = Some m" by simp
    from Cons.IH [OF this] obtain pre body post where
      "cs = pre @ m @ post" "CHR ''{'' \<notin> set pre" "CHR ''}'' \<notin> set post"
      "m = CHR ''{'' # body" "body \<noteq> []" "last body = CHR ''}''" by blast
    with False have "c # cs = (c # pre) @ m @ post \<and> CHR ''{'' \<notin> set (c # pre)
        \<and> CHR ''}'' \<notin> set post \<and> m = CHR ''{'' # body \<and> body \<noteq> [] \<and> last body = CHR ''}''"
      by simp
    then show ?thesis by blast
  next
    case True
    show ?thesis
    proof (cases "greedyClose cs")
      case None
      then have "CHR ''}'' \<notin> set cs" by (simp add: greedyClose_None_iff)
      then have "CHR ''}'' \<notin> set (dropWhile (\<lambda>c. c \<noteq> CHR ''{'') cs)"
        using set_dropWhileD [of "CHR ''}''" "\<lambda>c. c \<noteq> CHR ''{''" cs] by blast
      then have "jsonMatch cs = None" by (simp add: jsonMatch_None_iff)
      with True None Cons.prems show ?thesis by simp
    next
      case (Some body)
      with True Cons.prems have m: "m = CHR ''{'' # body" by simp
      from greedyClose_SomeD [OF Some] obtain post where
        "cs = body @ post" "CHR ''}'' \<notin> set post" "body \<noteq> []" "last body = CHR ''}''" by blast
      with True m have "c # cs = [] @ m @ post \<and> CHR ''{'' \<notin> set ([] :: string)
          \<and> CHR ''}'' \<notin> set post \<and> m = CHR ''{'' # body \<and> body \<noteq> [] \<and> last body = CHR ''}''"
        by simp
      then show ?thesis by blast
    qed
  qed
qed

lemma jsonMatch_SomeI:
  "CHR ''{'' \<notin> set pre \<Longrightarrow> body \<noteq> [] \<Longrightarrow> last body = CHR ''}'' \<Longrightarrow> CHR ''}'' \<notin> set post \<Longrightarrow>
     jsonMatch (pre @ (CHR ''{'' # body) @ post) = Some (CHR ''{'' # body)"
proof (induction pre)
  case Nil
  then show ?case by (simp add: greedyClose_SomeI)
next
  case (Cons a pre)
  from Cons.prems(1) have "a \<noteq> CHR ''{''" and "CHR ''{'' \<notin> set pre" by auto
  with Cons.IH Cons.prems show ?case by simp
qed

lemma jsonMatch_Some_iff:
  "jsonMatch s = Some m \<longleftrightarrow>
     (\<exists>pre post. s = pre @ m @ post \<and> CHR ''{'' \<notin> set pre \<and> CHR ''}'' \<notin> set post
        \<and> 2 \<le> length m \<and> hd m = CHR ''{'' \<and> last m = CHR ''}'')"
proof
  assume "jsonMatch s = Some m"
  from jsonMatch_SomeD [OF this] obtain pre body post where
    "s = pre @ m @ post" "CHR ''{'' \<notin> set pre" "CHR ''}'' \<notin> set post"
    "m = CHR ''{'' # body" "body \<noteq> []" "last body = CHR ''}''" by blast
  then have "s = pre @ m @ post \<and> CHR ''{'' \<notin> set pre \<and> CHR ''}'' \<notin> set post
        \<and> 2 \<le> length m \<and> hd m = CHR ''{'' \<and> last m = CHR ''}''"
    by (cases body) simp_all
  then show "\<exists>pre post. s = pre @ m @ post \<and> CHR ''{'' \<notin> set pre \<and> CHR ''}'' \<notin> set post
        \<and> 2 \<le> length m \<and> hd m = CHR ''{'' \<and> last m = CHR ''}''"
    by blast
next
  assume "\<exists>pre post. s = pre @ m @ post \<and> CHR ''{'' \<notin> set pre \<and> CHR ''}'' \<notin> set post
        \<and> 2 \<le> length m \<and> hd m = CHR ''{'' \<and> last m = CHR ''}''"
  then obtain pre post where s: "s = pre @ m @ post" and pre: "CHR ''{'' \<notin> set pre"
    and post: "CHR ''}'' \<notin> set post" and len: "2 \<le> length m"
    and h: "hd m = CHR ''{''" and l: "last m = CHR ''}''" by blast
  from len obtain c body where cm: "m = c # body" and body: "body \<noteq> []"
    by (cases m) (auto simp: Suc_le_eq)
  from cm h have m: "m = CHR ''{'' # body" by simp
  from m body l have "last body = CHR ''}''" by simp
  from jsonMatch_SomeI [OF pre body this post] show "jsonMatch s = Some m"
    by (simp add: s m)
qed

lemma sublist_trim: "sublist (trim s) s"
proof -
  let ?t = "dropWhile isWhiteSpace s"
  have "suffix (dropWhile isWhiteSpace (rev ?t)) (rev ?t)" by (rule suffix_dropWhile)
  then have "prefix (trim s) ?t" by (simp add: suffix_to_prefix trim_def)
  then have 1: "sublist (trim s) ?t" by (rule prefix_imp_sublist)
  have "suffix ?t s" by (rule suffix_dropWhile)
  then have 2: "sublist ?t s" by (rule suffix_imp_sublist)
  from 1 2 show ?thesis by (rule sublist_order.order_trans)
qed

lemma sublist_stripLeadingFence: "sublist (stripLeadingFence s) s"
  by (simp add: stripLeadingFence_def suffix_drop suffix_imp_sublist)

lemma sublist_stripTrailingFence: "sublist (stripTrailingFence s) s"
  by (simp add: stripTrailingFence_def take_is_prefix prefix_imp_sublist)

lemma sublist_cleanResponse: "sublist (cleanResponse r) r"
proof -
  have "sublist (cleanResponse r) (stripTrailingFence (stripLeadingFence (trim r)))"
    unfolding cleanResponse_def by (rule sublist_trim)
  also have "sublist \<dots> (stripLeadingFence (trim r))" by (rule sublist_stripTrailingFence)
  also have "sublist \<dots> (trim r)" by (rule sublist_stripLeadingFence)
  also have "sublist \<dots> r" by (rule sublist_trim)
  finally show ?thesis .
qed

lemma brace_pair_dropWhile:
  "CHR ''}'' \<in> set (dropWhile (\<lambda>c. c \<noteq> CHR ''{'') (pre @ CHR ''{'' # mid @ CHR ''}'' # post))"
  by (induction pre) simp_all

lemma jsonMatch_None_sublist:
  assumes "sublist t s" and "jsonMatch s = None"
  shows "jsonMatch t = None"
proof (rule ccontr)
  assume "jsonMatch t \<noteq> None"
  then obtain m where "jsonMatch t = Some m" by blast
  from jsonMatch_SomeD [OF this] obtain pre body post where
    t: "t = pre @ m @ post" and m: "m = CHR ''{'' # body"
    and body: "body \<noteq> []" "last body = CHR ''}''" by blast
  from body have b: "body = butlast body @ [CHR ''}'']"
    using append_butlast_last_id [of body] by simp
  from assms(1) obtain ps ss where s: "s = ps @ t @ ss" by (auto simp: sublist_def)
  have "s = (ps @ pre) @ CHR ''{'' # butlast body @ CHR ''}'' # (post @ ss)"
    unfolding s t m by (subst b) simp
  then have "CHR ''}'' \<in> set (dropWhile (\<lambda>c. c \<noteq> CHR ''{'') s)"
    using brace_pair_dropWhile [of "ps @ pre" "butlast body" "post @ ss"] by simp
  with assms(2) show False by (simp add: jsonMatch_None_iff)
qed

lemma parseAndValidateDelta_Inr_iff:
  "parseAndValidateDelta jsonParse safeParse response = Inr d \<longleftrightarrow>
     (\<exists>v. jsonParse (cleanResponse response) = Some v \<and> safeParse v = Inr d)
     \<or> (jsonParse (cleanResponse response) = None
        \<and> (\<exists>m v. jsonMatch (cleanResponse response) = Some m \<and> jsonParse m = Some v
               \<and> safeParse v = Inr d))"
  by (auto simp: parseAndValidateDelta_def parseJson_def split: option.splits sum.splits)

lemma parseAndValidateDelta_no_braces:
  assumes "jsonMatch response = None"
  shows "jsonParse (cleanResponse response) = None \<longrightarrow>
           parseAndValidateDelta jsonParse safeParse response = Inl NoJsonFound"
    and "(\<forall>s v d. jsonParse s = Some v \<and> safeParse v = Inr d \<longrightarrow> jsonMatch s \<noteq> None) \<longrightarrow>
           (\<exists>e. parseAndValidateDelta jsonParse safeParse response = Inl e)"
proof -
  have none: "jsonMatch (cleanResponse response) = None"
    using sublist_cleanResponse assms by (rule jsonMatch_None_sublist)
  show "jsonParse (cleanResponse response) = None \<longrightarrow>
           parseAndValidateDelta jsonParse safeParse response = Inl NoJsonFound"
    by (simp add: parseAndValidateDelta_def parseJson_def none)
  show "(\<forall>s v d. jsonParse s = Some v \<and> safeParse v = Inr d \<longrightarrow> jsonMatch s \<noteq> None) \<longrightarrow>
           (\<exists>e. parseAndValidateDelta jsonParse safeParse response = Inl e)"
  proof
    assume obj: "\<forall>s v d. jsonParse s = Some v \<and> safeParse v = Inr d \<longrightarrow> jsonMatch s \<noteq> None"
    show "\<exists>e. parseAndValidateDelta jsonParse safeParse response = Inl e"
    proof (cases "parseAndValidateDelta jsonParse safeParse response")
      case (Inl e)
      then show ?thesis by blast
    next
      case (Inr d)
      then have "\<exists>v. jsonParse (cleanResponse response) = Some v \<and> safeParse v = Inr d"
        by (simp add: parseAndValidateDelta_Inr_iff none)
      with obj none show ?thesis by blast
    qed
  qed
qed

lemma cleanResponse_scenarioD: "cleanResponse scenarioD = ''{\"addNodes\":[]}''"
  by (simp add: cleanResponse_def scenarioD_def trim_def isWhiteSpace_def stripLeadingFence_def
      stripTrailingFence_def startsWith_def endsWith_def)

lemma cleanResponse_scenarioE: "cleanResponse scenarioE = scenarioE"
  by (simp add: cleanResponse_def scenarioE_def trim_def isWhiteSpace_def stripLeadingFence_def
      stripTrailingFence_def startsWith_def endsWith_def)

lemma jsonMatch_scenarioE: "jsonMatch scenarioE = Some ''{\"addNodes\":[]}''"
  by (simp add: scenarioE_def)

lemma stripLeadingFence_cases:
  "stripLeadingFence (''```json'' @ s) = s
   \<and> (\<not> startsWith s ''json'' \<longrightarrow> stripLeadingFence (''```'' @ s) = s)
   \<and> (\<not> startsWith s ''```'' \<longrightarrow> stripLeadingFence s = s)"
proof (intro conjI impI)
  show "stripLeadingFence (''```json'' @ s) = s"
    by (simp add: stripLeadingFence_def startsWith_def)
  show "stripLeadingFence (''```'' @ s) = s" if "\<not> startsWith s ''json''"
    using that by (simp add: stripLeadingFence_def startsWith_def)
  show "stripLeadingFence s = s" if no: "\<not> startsWith s ''```''"
  proof -
    have "\<not> startsWith s ''```json''"
    proof
      assume "startsWith s ''```json''"
      then have t7: "take (length ''```json'') s = ''```json''" by (simp only: startsWith_def)
      have "take (length ''```'') s = take (length ''```'') (take (length ''```json'') s)"
        by simp
      also have "\<dots> = ''```''" unfolding t7 by simp
      finally have "startsWith s ''```''" by (simp only: startsWith_def)
      with no show False by simp
    qed
    with no show ?thesis by (simp add: stripLeadingFence_def)
  qed
qed

lemma stripTrailingFence_cases:
  "stripTrailingFence (s @ ''```'') = s
   \<and> (\<not> endsWith s ''```'' \<longrightarrow> stripTrailingFence s = s)"
  by (simp add: stripTrailingFence_def endsWith_def)

lemma startsWith_prefix: "startsWith s p \<longleftrightarrow> prefix p s"
proof
  assume "startsWith s p"
  then have "s = p @ drop (length p) s"
    using append_take_drop_id [of "length p" s] by (simp add: startsWith_def)
  then show "prefix p s" by (rule prefixI)
next
  assume "prefix p s"
  then obtain zs where "s = p @ zs" by (rule prefixE)
  then show "startsWith s p" by (simp add: startsWith_def)
qed

lemma endsWith_suffix: "endsWith s p \<longleftrightarrow> suffix p s"
proof
  assume "endsWith s p"
  then have "s = take (length s - length p) s @ p"
    using append_take_drop_id [of "length s - length p" s] by (simp add: endsWith_def)
  then show "suffix p s" by (rule suffixI)
next
  assume "suffix p s"
  then obtain zs where "s = zs @ p" by (rule suffixE)
  then show "endsWith s p" by (simp add: endsWith_def)
qed

lemma isWhiteSpace_set:
  "isWhiteSpace c \<longleftrightarrow> c \<in> {CHR 0x09, CHR 0x0A, CHR 0x0B, CHR 0x0C, CHR 0x0D, CHR 0x20, CHR 0xA0}"
  by (simp add: isWhiteSpace_def)

lemma trim_inner:
  "dropWhile isWhiteSpace t =
     trim t @ rev (takeWhile isWhiteSpace (rev (dropWhile isWhiteSpace t)))"
proof -
  let ?u = "dropWhile isWhiteSpace t"
  have "rev (takeWhile isWhiteSpace (rev ?u) @ dropWhile isWhiteSpace (rev ?u)) = rev (rev ?u)"
    by (simp only: takeWhile_dropWhile_id)
  then have "rev (dropWhile isWhiteSpace (rev ?u)) @ rev (takeWhile isWhiteSpace (rev ?u)) = ?u"
    by (simp only: rev_append rev_rev_ident)
  then show ?thesis by (simp only: trim_def)
qed

lemma trim_decomposition:
  "t = takeWhile isWhiteSpace t @ trim t
         @ rev (takeWhile isWhiteSpace (rev (dropWhile isWhiteSpace t)))"
proof -
  have "t = takeWhile isWhiteSpace t @ dropWhile isWhiteSpace t" by simp
  also have "dropWhile isWhiteSpace t =
      trim t @ rev (takeWhile isWhiteSpace (rev (dropWhile isWhiteSpace t)))"
    by (rule trim_inner)
  finally show ?thesis .
qed

lemma trim_ends:
  assumes "trim t \<noteq> []"
  shows "\<not> isWhiteSpace (hd (trim t))" and "\<not> isWhiteSpace (last (trim t))"
proof -
  let ?u = "dropWhile isWhiteSpace t"
  let ?v = "dropWhile isWhiteSpace (rev ?u)"
  from assms have v: "?v \<noteq> []" by (simp add: trim_def)
  then have "\<not> isWhiteSpace (hd ?v)" by (rule hd_dropWhile)
  with v show "\<not> isWhiteSpace (last (trim t))" by (simp add: trim_def last_rev)
  from v have "rev ?u \<noteq> []" by (metis dropWhile.simps(1))
  then have u: "?u \<noteq> []" by simp
  then have hu: "\<not> isWhiteSpace (hd ?u)" by (rule hd_dropWhile)
  have "?u = trim t @ rev (takeWhile isWhiteSpace (rev ?u))"
    by (rule trim_inner)
  with assms have "hd ?u = hd (trim t)" by (metis hd_append2)
  with hu show "\<not> isWhiteSpace (hd (trim t))" by simp
qed

lemma trim_spec:
  "(\<exists>pre post. t = pre @ trim t @ post \<and> set pre \<subseteq> {CHR 0x09, CHR 0x0A, CHR 0x0B, CHR 0x0C, CHR 0x0D, CHR 0x20, CHR 0xA0} \<and> set post \<subseteq> {CHR 0x09, CHR 0x0A, CHR 0x0B, CHR 0x0C, CHR 0x0D, CHR 0x20, CHR 0xA0})
   \<and> (trim t \<noteq> [] \<longrightarrow> hd (trim t) \<notin> {CHR 0x09, CHR 0x0A, CHR 0x0B, CHR 0x0C, CHR 0x0D, CHR 0x20, CHR 0xA0} \<and> last (trim t) \<notin> {CHR 0x09, CHR 0x0A, CHR 0x0B, CHR 0x0C, CHR 0x0D, CHR 0x20, CHR 0xA0})"
proof (intro conjI impI)
  let ?pre = "takeWhile isWhiteSpace t"
  let ?post = "rev (takeWhile isWhiteSpace (rev (dropWhile isWhiteSpace t)))"
  have 1: "t = ?pre @ trim t @ ?post" by (rule trim_decomposition)
  have 2: "set ?pre \<subseteq> {CHR 0x09, CHR 0x0A, CHR 0x0B, CHR 0x0C, CHR 0x0D, CHR 0x20, CHR 0xA0}"
    using set_takeWhileD [of _ isWhiteSpace t] by (auto simp: isWhiteSpace_set)
  have 3: "set ?post \<subseteq> {CHR 0x09, CHR 0x0A, CHR 0x0B, CHR 0x0C, CHR 0x0D, CHR 0x20, CHR 0xA0}"
    using set_takeWhileD [of _ isWhiteSpace "rev (dropWhile isWhiteSpace t)"]
    by (auto simp: isWhiteSpace_set)
  from 1 2 3 show "\<exists>pre post. t = pre @ trim t @ post \<and> set pre \<subseteq> {CHR 0x09, CHR 0x0A, CHR 0x0B, CHR 0x0C, CHR 0x0D, CHR 0x20, CHR 0xA0} \<and> set post \<subseteq> {CHR 0x09, CHR 0x0A, CHR 0x0B, CHR 0x0C, CHR 0x0D, CHR 0x20, CHR 0xA0}"
    by blast
next
  assume "trim t \<noteq> []"
  then show "hd (trim t) \<notin> {CHR 0x09, CHR 0x0A, CHR 0x0B, CHR 0x0C, CHR 0x0D, CHR 0x20, CHR 0xA0}" using trim_ends(1) [of t] by (simp add: isWhiteSpace_set)
next
  assume "trim t \<noteq> []"
  then show "last (trim t) \<notin> {CHR 0x09, CHR 0x0A, CHR 0x0B, CHR 0x0C, CHR 0x0D, CHR 0x20, CHR 0xA0}" using trim_ends(2) [of t] by (simp add: isWhiteSpace_set)
qed

lemma parse_scenarioE:
  assumes "jsonParse scenarioE = None" "jsonParse ''{\"addNodes\":[]}'' = Some v"
    "safeParse v = Inr d"
  shows "parseAndValidateDelta jsonParse safeParse scenarioE = Inr d"
  using assms
  by (simp add: parseAndValidateDelta_Inr_iff cleanResponse_scenarioE jsonMatch_scenarioE)

lemma parse_scenarioD:
  assumes "jsonParse ''{\"addNodes\":[]}'' = Some v" "safeParse v = Inr d"
  shows "parseAndValidateDelta jsonParse safeParse scenarioD = Inr d"
  using assms by (simp add: parseAndValidateDelta_Inr_iff cleanResponse_scenarioD)

subsection \<open>C5: cleaning, the two parses and the failures\<close>

text \<open>
  C5. For every \<^verbatim>\<open>JSON.parse\<close> and every schema check: the text that is parsed is the
  response trimmed, without one leading fence (\<^verbatim>\<open>```json\<close>, else a bare \<^verbatim>\<open>```\<close>), without
  one trailing fence, and trimmed again. Trimming a text \<open>t\<close> removes a run of the code
  units 9, 10, 11, 12, 13, 32 and 160 at its start and one at its end, and what is left
  neither starts nor ends with one of them. The regular expression matches exactly the
  substring from the first opening brace to the last closing brace, when the latter
  comes after the former. The parser returns the delta \<open>d\<close> exactly when the cleaned text
  parses and the value passes the schema check as \<open>d\<close>, or the cleaned text does not
  parse, the brace substring exists and parses, and its value passes the schema check as
  \<open>d\<close>; in every other case it fails, with the error that the case analysis gives.
  Scenario D returns the delta of the fenced text; scenario E returns it through the
  brace substring, the whole text not being JSON. A response with no opening brace
  followed by a closing brace fails: with the error \<open>NoJsonFound\<close> when the cleaned text
  does not parse, and with some error whenever only texts that contain such a pair of
  braces parse to a value that passes the schema check, as is the case for JSON objects.
\<close>

theorem parseAndValidateDelta_spec:
  "cleanResponse response = trim (stripTrailingFence (stripLeadingFence (trim response)))
   \<and> (\<exists>pre post. t = pre @ trim t @ post \<and> set pre \<subseteq> {CHR 0x09, CHR 0x0A, CHR 0x0B, CHR 0x0C, CHR 0x0D, CHR 0x20, CHR 0xA0}
          \<and> set post \<subseteq> {CHR 0x09, CHR 0x0A, CHR 0x0B, CHR 0x0C, CHR 0x0D, CHR 0x20, CHR 0xA0})
   \<and> (trim t \<noteq> [] \<longrightarrow>
        hd (trim t) \<notin> {CHR 0x09, CHR 0x0A, CHR 0x0B, CHR 0x0C, CHR 0x0D, CHR 0x20, CHR 0xA0}
        \<and> last (trim t) \<notin> {CHR 0x09, CHR 0x0A, CHR 0x0B, CHR 0x0C, CHR 0x0D, CHR 0x20, CHR 0xA0})
   \<and> stripLeadingFence (''```json'' @ s) = s
   \<and> (\<not> prefix ''json'' s \<longrightarrow> stripLeadingFence (''```'' @ s) = s)
   \<and> (\<not> prefix ''```'' s \<longrightarrow> stripLeadingFence s = s)
   \<and> stripTrailingFence (s @ ''```'') = s
   \<and> (\<not> suffix ''```'' s \<longrightarrow> stripTrailingFence s = s)
   \<and> (jsonMatch c = Some m \<longleftrightarrow>
        (\<exists>pre post. c = pre @ m @ post \<and> CHR ''{'' \<notin> set pre \<and> CHR ''}'' \<notin> set post
           \<and> 2 \<le> length m \<and> hd m = CHR ''{'' \<and> last m = CHR ''}''))
   \<and> (parseAndValidateDelta jsonParse safeParse response = Inr d \<longleftrightarrow>
        (\<exists>v. jsonParse (cleanResponse response) = Some v \<and> safeParse v = Inr d)
        \<or> (jsonParse (cleanResponse response) = None
           \<and> (\<exists>m v. jsonMatch (cleanResponse response) = Some m \<and> jsonParse m = Some v
                  \<and> safeParse v = Inr d)))
   \<and> parseAndValidateDelta jsonParse safeParse response =
        (case jsonParse (cleanResponse response) of
           Some w \<Rightarrow>
             (case safeParse w of Inl msg \<Rightarrow> Inl (InvalidGraphDelta msg) | Inr g \<Rightarrow> Inr g)
         | None \<Rightarrow>
             (case jsonMatch (cleanResponse response) of
                None \<Rightarrow> Inl NoJsonFound
              | Some b \<Rightarrow>
                  (case jsonParse b of
                     None \<Rightarrow> Inl JsonSyntaxError
                   | Some w \<Rightarrow>
                       (case safeParse w of
                          Inl msg \<Rightarrow> Inl (InvalidGraphDelta msg)
                        | Inr g \<Rightarrow> Inr g))))
   \<and> (jsonParse ''{\"addNodes\":[]}'' = Some v \<and> safeParse v = Inr d \<longrightarrow>
        parseAndValidateDelta jsonParse safeParse scenarioD = Inr d)
   \<and> (jsonParse scenarioE = None \<and> jsonParse ''{\"addNodes\":[]}'' = Some v
        \<and> safeParse v = Inr d \<longrightarrow>
        parseAndValidateDelta jsonParse safeParse scenarioE = Inr d)
   \<and> (jsonMatch response = None \<and> jsonParse (cleanResponse response) = None \<longrightarrow>
        parseAndValidateDelta jsonParse safeParse response = Inl NoJsonFound)
   \<and> (jsonMatch response = None
        \<and> (\<forall>s v d. jsonParse s = Some v \<and> safeParse v = Inr d \<longrightarrow> jsonMatch s \<noteq> None) \<longrightarrow>
        (\<exists>e. parseAndValidateDelta jsonParse safeParse response = Inl e))"
proof (intro conjI)
  show "cleanResponse response = trim (stripTrailingFence (stripLeadingFence (trim response)))"
    by (simp add: cleanResponse_def)
  show "jsonMatch c = Some m \<longleftrightarrow>
        (\<exists>pre post. c = pre @ m @ post \<and> CHR ''{'' \<notin> set pre \<and> CHR ''}'' \<notin> set post
           \<and> 2 \<le> length m \<and> hd m = CHR ''{'' \<and> last m = CHR ''}'')"
    by (rule jsonMatch_Some_iff)
  show "parseAndValidateDelta jsonParse safeParse response = Inr d \<longleftrightarrow>
        (\<exists>v. jsonParse (cleanResponse response) = Some v \<and> safeParse v = Inr d)
        \<or> (jsonParse (cleanResponse response) = None
           \<and> (\<exists>m v. jsonMatch (cleanResponse response) = Some m \<and> jsonParse m = Some v
                  \<and> safeParse v = Inr d))"
    by (rule parseAndValidateDelta_Inr_iff)
  show "parseAndValidateDelta jsonParse safeParse response =
        (case jsonParse (cleanResponse response) of
           Some w \<Rightarrow>
             (case safeParse w of Inl msg \<Rightarrow> Inl (InvalidGraphDelta msg) | Inr g \<Rightarrow> Inr g)
         | None \<Rightarrow>
             (case jsonMatch (cleanResponse response) of
                None \<Rightarrow> Inl NoJsonFound
              | Some b \<Rightarrow>
                  (case jsonParse b of
                     None \<Rightarrow> Inl JsonSyntaxError
                   | Some w \<Rightarrow>
                       (case safeParse w of
                          Inl msg \<Rightarrow> Inl (InvalidGraphDelta msg)
                        | Inr g \<Rightarrow> Inr g))))"
    by (simp add: parseAndValidateDelta_def parseJson_def split: option.splits)
  show "jsonParse ''{\"addNodes\":[]}'' = Some v \<and> safeParse v = Inr d \<longrightarrow>
        parseAndValidateDelta jsonParse safeParse scenarioD = Inr d"
    using parse_scenarioD [of jsonParse v safeParse d] by blast
  show "jsonParse scenarioE = None \<and> jsonParse ''{\"addNodes\":[]}'' = Some v
        \<and> safeParse v = Inr d \<longrightarrow>
        parseAndValidateDelta jsonParse safeParse scenarioE = Inr d"
    using parse_scenarioE [of jsonParse v safeParse d] by blast
  show "jsonMatch response = None \<and> jsonParse (cleanResponse response) = None \<longrightarrow>
        parseAndValidateDelta jsonParse safeParse response = Inl NoJsonFound"
    using parseAndValidateDelta_no_braces(1) [of response jsonParse safeParse] by blast
  show "jsonMatch response = None
        \<and> (\<forall>s v d. jsonParse s = Some v \<and> safeParse v = Inr d \<longrightarrow> jsonMatch s \<noteq> None) \<longrightarrow>
        (\<exists>e. parseAndValidateDelta jsonParse safeParse response = Inl e)"
    using parseAndValidateDelta_no_braces(2) [of response jsonParse safeParse] by blast
  show "stripLeadingFence (''```json'' @ s) = s"
    using stripLeadingFence_cases [of s] by blast
  show "\<not> prefix ''json'' s \<longrightarrow> stripLeadingFence (''```'' @ s) = s"
    using stripLeadingFence_cases [of s, unfolded startsWith_prefix] by blast
  show "\<not> prefix ''```'' s \<longrightarrow> stripLeadingFence s = s"
    using stripLeadingFence_cases [of s, unfolded startsWith_prefix] by blast
  show "stripTrailingFence (s @ ''```'') = s"
    using stripTrailingFence_cases [of s] by blast
  show "\<not> suffix ''```'' s \<longrightarrow> stripTrailingFence s = s"
    using stripTrailingFence_cases [of s, unfolded endsWith_suffix] by blast
  show "\<exists>pre post. t = pre @ trim t @ post \<and> set pre \<subseteq> {CHR 0x09, CHR 0x0A, CHR 0x0B, CHR 0x0C, CHR 0x0D, CHR 0x20, CHR 0xA0}
          \<and> set post \<subseteq> {CHR 0x09, CHR 0x0A, CHR 0x0B, CHR 0x0C, CHR 0x0D, CHR 0x20, CHR 0xA0}"
    using trim_spec [of t] by blast
  show "trim t \<noteq> [] \<longrightarrow>
        hd (trim t) \<notin> {CHR 0x09, CHR 0x0A, CHR 0x0B, CHR 0x0C, CHR 0x0D, CHR 0x20, CHR 0xA0}
        \<and> last (trim t) \<notin> {CHR 0x09, CHR 0x0A, CHR 0x0B, CHR 0x0C, CHR 0x0D, CHR 0x20, CHR 0xA0}"
    using trim_spec [of t] by blast
qed

text \<open>
  The theorem with the stand-ins for \<^verbatim>\<open>JSON.parse\<close> and the schema check, at scenario E,
  at scenario D and at a response without braces, beside a text trimmed of a line feed, a
  space, a no-break space and a tab, and a text without fences.
\<close>

theorem parseAndValidateDelta_spec_witness:
  "exJsonParse scenarioE = None
   \<and> exJsonParse ''{\"addNodes\":[]}'' = Some ()
   \<and> parseAndValidateDelta exJsonParse exSafeParse scenarioE
       = Inr (emptyDelta\<lparr> addNodes := Some [] \<rparr>)
   \<and> parseAndValidateDelta exJsonParse exSafeParse scenarioD
       = Inr (emptyDelta\<lparr> addNodes := Some [] \<rparr>)
   \<and> jsonMatch ''no json here'' = None
   \<and> parseAndValidateDelta exJsonParse exSafeParse ''no json here'' = Inl NoJsonFound
   \<and> trim ([CHR 0x0A, CHR 0x20] @ ''{ }'' @ [CHR 0xA0, CHR 0x09]) = ''{ }''
   \<and> \<not> prefix ''json'' ''{}'' \<and> stripLeadingFence (''```'' @ ''{}'') = ''{}''
   \<and> \<not> suffix ''```'' ''{}'' \<and> stripTrailingFence ''{}'' = ''{}''"
proof -
  have e: "exJsonParse scenarioE = None" by (simp add: exJsonParse_def scenarioE_def)
  have p: "exJsonParse ''{\"addNodes\":[]}'' = Some ()" by (simp add: exJsonParse_def)
  have s: "exSafeParse () = Inr (emptyDelta\<lparr> addNodes := Some [] \<rparr>)"
    by (simp add: exSafeParse_def)
  have n: "jsonMatch ''no json here'' = None" by simp
  have c: "exJsonParse (cleanResponse ''no json here'') = None"
    by (simp add: exJsonParse_def cleanResponse_def trim_def isWhiteSpace_def
        stripLeadingFence_def stripTrailingFence_def startsWith_def endsWith_def)
  note spec = parseAndValidateDelta_spec [where jsonParse = exJsonParse
      and safeParse = exSafeParse and d = "emptyDelta\<lparr> addNodes := Some [] \<rparr>" and v = "()"]
  from spec [where response = "''no json here''"] e p s
  have E: "parseAndValidateDelta exJsonParse exSafeParse scenarioE
       = Inr (emptyDelta\<lparr> addNodes := Some [] \<rparr>)" by blast
  from spec [where response = "''no json here''"] p s
  have D: "parseAndValidateDelta exJsonParse exSafeParse scenarioD
       = Inr (emptyDelta\<lparr> addNodes := Some [] \<rparr>)" by blast
  from spec [where response = "''no json here''"] n c
  have N: "parseAndValidateDelta exJsonParse exSafeParse ''no json here'' = Inl NoJsonFound"
    by blast
  have T: "trim ([CHR 0x0A, CHR 0x20] @ ''{ }'' @ [CHR 0xA0, CHR 0x09]) = ''{ }''"
    by (simp add: trim_def isWhiteSpace_def)
  have np: "\<not> prefix ''json'' ''{}''" by simp
  have ns: "\<not> suffix ''```'' ''{}''" by (simp add: suffix_to_prefix)
  from spec [where s = "''{}''"] np have L: "stripLeadingFence (''```'' @ ''{}'') = ''{}''" by blast
  from spec [where s = "''{}''"] ns have R: "stripTrailingFence ''{}'' = ''{}''" by blast
  from e p E D n N T np L ns R show ?thesis by (intro conjI)
qed

end
